theory Spec2Isabelle
  imports Main "HOL-Library.Word" "HOL-Library.Sublist"
begin

section \<open>Text, bytes and the string operations of the scripts\<close>

text \<open>
  A Python \<open>str\<close> is a sequence of code points: \<open>pystr\<close> is a list of naturals, one
  per code point. File contents are bytes. File names are \<open>string\<close>s (one \<open>char\<close> per
  code point below 256); among those code points the only ones matched by the regular
  expression class \<open>\d\<close> are the ASCII digits. \<open>u\<close> turns a name or a literal into text.
\<close>

type_synonym pystr = "nat list"
type_synonym byte = "8 word"

definition u :: "string \<Rightarrow> pystr" where
  "u s = map of_char s"

text \<open>\<open>str.isspace\<close>: the characters removed by \<open>strip()\<close> and \<open>rstrip()\<close> without argument.\<close>

definition py_isspace :: "nat \<Rightarrow> bool" where
  "py_isspace c =
     ((9 \<le> c \<and> c \<le> 13) \<or> (28 \<le> c \<and> c \<le> 32) \<or> c = 133 \<or> c = 160 \<or> c = 5760
      \<or> (8192 \<le> c \<and> c \<le> 8202) \<or> c = 8232 \<or> c = 8233 \<or> c = 8239 \<or> c = 8287
      \<or> c = 12288)"

definition py_lstrip :: "pystr \<Rightarrow> pystr" where
  "py_lstrip t = dropWhile py_isspace t"

definition py_rstrip :: "pystr \<Rightarrow> pystr" where
  "py_rstrip t = rev (dropWhile py_isspace (rev t))"

definition py_strip :: "pystr \<Rightarrow> pystr" where
  "py_strip t = py_rstrip (py_lstrip t)"

text \<open>\<open>line.rstrip('\r')\<close>: only carriage returns are removed.\<close>

definition rstrip_cr :: "pystr \<Rightarrow> pystr" where
  "rstrip_cr t = rev (dropWhile (\<lambda>c. c = 13) (rev t))"

text \<open>
  \<open>str.splitlines()\<close>: the line boundaries are LF, CR, CR LF, VT, FF, FS, GS, RS, NEL,
  LS and PS; the boundaries are dropped, and a boundary at the very end opens no further
  line.
\<close>

definition is_linebreak :: "nat \<Rightarrow> bool" where
  "is_linebreak c =
     ((10 \<le> c \<and> c \<le> 13) \<or> (28 \<le> c \<and> c \<le> 30) \<or> c = 133 \<or> c = 8232 \<or> c = 8233)"

fun splitlines :: "pystr \<Rightarrow> pystr list" where
  "splitlines [] = []"
| "splitlines [c] = (if is_linebreak c then [[]] else [[c]])"
| "splitlines (c # d # ds) =
     (if c = 13 \<and> d = 10 then [] # splitlines ds
      else if is_linebreak c then [] # splitlines (d # ds)
      else (case splitlines (d # ds) of [] \<Rightarrow> [[c]] | l # ls \<Rightarrow> (c # l) # ls))"

text \<open>\<open>sep.join(parts)\<close>.\<close>

fun py_join :: "'a list \<Rightarrow> 'a list list \<Rightarrow> 'a list" where
  "py_join sep [] = []"
| "py_join sep [x] = x"
| "py_join sep (x # y # ys) = x @ sep @ py_join sep (y # ys)"

text \<open>\<open>'**' in line\<close> and \<open>line.replace('**', '')\<close>: the occurrences are found from the
  left and do not overlap. The code point of \<open>*\<close> is 42.\<close>

fun has_marker :: "pystr \<Rightarrow> bool" where
  "has_marker (a # b # cs) = ((a = 42 \<and> b = 42) \<or> has_marker (b # cs))"
| "has_marker cs = False"

fun replace_marker :: "pystr \<Rightarrow> pystr" where
  "replace_marker (a # b # cs) =
     (if a = 42 \<and> b = 42 then replace_marker cs else a # replace_marker (b # cs))"
| "replace_marker cs = cs"

section \<open>Documents\<close>

text \<open>
  What the document library shows of a document: its paragraphs, each with its text
  (\<open>para.text\<close>) and its runs (\<open>para.runs\<close>), each run with its text and its tri-state
  bold flag (\<open>None\<close> when the run inherits it). The two views of a paragraph are kept
  apart, as the library gives them: the text of a paragraph also holds what is inside a
  hyperlink, which is not among the runs.
\<close>

record run =
  rtext :: pystr
  rbold :: "bool option"

record para =
  ptext :: pystr
  pruns :: "run list"

section \<open>UTF-8\<close>

text \<open>
  \<open>bytes.decode('utf-8', errors)\<close>, with \<open>errors='strict'\<close> (\<open>rp = False\<close>: \<open>None\<close>
  stands for \<open>UnicodeDecodeError\<close>) and with \<open>errors='replace'\<close> (\<open>rp = True\<close>: every
  malformed sequence, taken as long as it is still the beginning of a well-formed one,
  becomes one U+FFFD and decoding goes on behind it).
\<close>

definition is_cont :: "byte \<Rightarrow> bool" where
  "is_cont b = (0x80 \<le> b \<and> b \<le> 0xBF)"

definition cont_val :: "byte \<Rightarrow> nat" where
  "cont_val b = unat b mod 64"

definition second3 :: "byte \<Rightarrow> byte \<Rightarrow> bool" where
  "second3 b0 b1 =
     (if b0 = 0xE0 then 0xA0 \<le> b1 \<and> b1 \<le> 0xBF
      else if b0 = 0xED then 0x80 \<le> b1 \<and> b1 \<le> 0x9F
      else is_cont b1)"

definition second4 :: "byte \<Rightarrow> byte \<Rightarrow> bool" where
  "second4 b0 b1 =
     (if b0 = 0xF0 then 0x90 \<le> b1 \<and> b1 \<le> 0xBF
      else if b0 = 0xF4 then 0x80 \<le> b1 \<and> b1 \<le> 0x8F
      else is_cont b1)"

definition emit :: "nat \<Rightarrow> pystr option \<Rightarrow> pystr option" where
  "emit c r = map_option ((#) c) r"

definition malformed :: "bool \<Rightarrow> pystr option \<Rightarrow> pystr option" where
  "malformed rp r = (if rp then emit 0xFFFD r else None)"

text \<open>One step of the decoder at the byte \<open>b0\<close> followed by \<open>bs\<close>: the code point, or
  \<open>None\<close> for a malformed sequence, and how many bytes of \<open>bs\<close> the step takes.\<close>

definition utf8_step :: "byte \<Rightarrow> byte list \<Rightarrow> nat option \<times> nat" where
  "utf8_step b0 bs =
     (if b0 < 0x80 then (Some (unat b0), 0)
      else if 0xC2 \<le> b0 \<and> b0 \<le> 0xDF then
        (case bs of
           [] \<Rightarrow> (None, 0)
         | b1 # bs1 \<Rightarrow>
             if is_cont b1 then (Some (unat b0 mod 32 * 64 + cont_val b1), 1) else (None, 0))
      else if 0xE0 \<le> b0 \<and> b0 \<le> 0xEF then
        (case bs of
           [] \<Rightarrow> (None, 0)
         | b1 # bs1 \<Rightarrow>
             if \<not> second3 b0 b1 then (None, 0)
             else
               (case bs1 of
                  [] \<Rightarrow> (None, 1)
                | b2 # bs2 \<Rightarrow>
                    if is_cont b2
                    then (Some (unat b0 mod 16 * 4096 + cont_val b1 * 64 + cont_val b2), 2)
                    else (None, 1)))
      else if 0xF0 \<le> b0 \<and> b0 \<le> 0xF4 then
        (case bs of
           [] \<Rightarrow> (None, 0)
         | b1 # bs1 \<Rightarrow>
             if \<not> second4 b0 b1 then (None, 0)
             else
               (case bs1 of
                  [] \<Rightarrow> (None, 1)
                | b2 # bs2 \<Rightarrow>
                    if \<not> is_cont b2 then (None, 1)
                    else
                      (case bs2 of
                         [] \<Rightarrow> (None, 2)
                       | b3 # bs3 \<Rightarrow>
                           if is_cont b3
                           then (Some (unat b0 mod 8 * 262144 + cont_val b1 * 4096
                                        + cont_val b2 * 64 + cont_val b3), 3)
                           else (None, 2))))
      else (None, 0))"

fun utf8_decode :: "bool \<Rightarrow> byte list \<Rightarrow> pystr option" where
  "utf8_decode rp [] = Some []"
| "utf8_decode rp (b0 # bs) =
     (case utf8_step b0 bs of
        (Some c, k) \<Rightarrow> emit c (utf8_decode rp (drop k bs))
      | (None, k) \<Rightarrow> malformed rp (utf8_decode rp (drop k bs)))"

text \<open>\<open>str.encode('utf-8')\<close>: \<open>None\<close> stands for \<open>UnicodeEncodeError\<close> (a surrogate).\<close>

definition utf8_encode_cp :: "nat \<Rightarrow> byte list option" where
  "utf8_encode_cp c =
     (if c < 0x80 then Some [of_nat c]
      else if c < 0x800 then Some [of_nat (0xC0 + c div 64), of_nat (0x80 + c mod 64)]
      else if 0xD800 \<le> c \<and> c \<le> 0xDFFF then None
      else if c < 0x10000 then
        Some [of_nat (0xE0 + c div 4096), of_nat (0x80 + c div 64 mod 64),
              of_nat (0x80 + c mod 64)]
      else if c < 0x110000 then
        Some [of_nat (0xF0 + c div 262144), of_nat (0x80 + c div 4096 mod 64),
              of_nat (0x80 + c div 64 mod 64), of_nat (0x80 + c mod 64)]
      else None)"

fun utf8_encode :: "pystr \<Rightarrow> byte list option" where
  "utf8_encode [] = Some []"
| "utf8_encode (c # cs) =
     (case utf8_encode_cp c of
        None \<Rightarrow> None
      | Some bs \<Rightarrow> map_option ((@) bs) (utf8_encode cs))"

text \<open>Reading in text mode turns CR LF and CR into LF (universal newlines).\<close>

fun universal_newlines :: "pystr \<Rightarrow> pystr" where
  "universal_newlines (c # d # ds) =
     (if c = 13 \<and> d = 10 then 10 # universal_newlines ds
      else if c = 13 then 10 # universal_newlines (d # ds)
      else c # universal_newlines (d # ds))"
| "universal_newlines [c] = (if c = 13 then [10] else [c])"
| "universal_newlines [] = []"

section \<open>Files\<close>

text \<open>
  A directory maps a name to what is stored under it: nothing, bytes, or an entry whose
  opening or reading fails with \<open>OSError\<close>. Writing is taken to succeed.
\<close>

datatype fentry = Plain "byte list" | Unreadable

datatype exn =
  OSError | UnicodeDecodeError | UnicodeEncodeError | RuntimeError | ValueError | IndexError
  | DocumentError

type_synonym directory = "string \<Rightarrow> fentry option"

definition read_bytes :: "directory \<Rightarrow> string \<Rightarrow> exn + byte list" where
  "read_bytes d p = (case d p of Some (Plain bs) \<Rightarrow> Inr bs | _ \<Rightarrow> Inl OSError)"

text \<open>\<open>path.read_text(encoding='utf-8', errors=...)\<close>; \<open>rp\<close> is \<open>errors='replace'\<close>.\<close>

definition read_text :: "bool \<Rightarrow> directory \<Rightarrow> string \<Rightarrow> exn + pystr" where
  "read_text rp d p =
     (case read_bytes d p of
        Inl e \<Rightarrow> Inl e
      | Inr bs \<Rightarrow>
          (case utf8_decode rp bs of
             None \<Rightarrow> Inl UnicodeDecodeError
           | Some t \<Rightarrow> Inr (universal_newlines t)))"

definition backup_path :: "string \<Rightarrow> string" where
  "backup_path p = p @ ''.orig.txt''"

text \<open>\<open>str(n)\<close> for a count.\<close>

fun str_nat :: "nat \<Rightarrow> string" where
  "str_nat n =
     (if n < 10 then [char_of (48 + n)] else str_nat (n div 10) @ [char_of (48 + n mod 10)])"

section \<open>The converter\<close>

text \<open>
  \<open>is_valid_docx\<close>: the first two bytes are compared with \<open>PK\<close>; an \<open>OSError\<close> is caught
  and answered with \<open>False\<close>, any other exception would pass through.
\<close>

definition is_valid_docx :: "directory \<Rightarrow> string \<Rightarrow> exn + bool" where
  "is_valid_docx d path =
     (case read_bytes d path of
        Inr bs \<Rightarrow> Inr (take 2 bs = [0x50, 0x4B])
      | Inl e \<Rightarrow> if e = OSError then Inr False else Inl e)"

text \<open>
  The state of a run of the converter: the directory and what has been printed. Fonts and
  sizes are not part of a paragraph here. \<open>save\<close> is the document library's
  serialisation of a document (\<open>doc.save\<close>), a parameter of the model.
\<close>

record conv_state =
  dir :: directory
  stdout :: "string list"
  stderr :: "string list"

definition print_out :: "string \<Rightarrow> conv_state \<Rightarrow> conv_state" where
  "print_out m st = st\<lparr>stdout := stdout st @ [m]\<rparr>"

definition print_err :: "string \<Rightarrow> conv_state \<Rightarrow> conv_state" where
  "print_err m st = st\<lparr>stderr := stderr st @ [m]\<rparr>"

text \<open>\<open>path.write_text(text, encoding='utf-8')\<close>: the file is opened (and emptied) before
  the text is encoded.\<close>

definition write_text :: "string \<Rightarrow> pystr \<Rightarrow> conv_state \<Rightarrow> exn option \<times> conv_state" where
  "write_text p t st =
     (case utf8_encode t of
        None \<Rightarrow> (Some UnicodeEncodeError, st\<lparr>dir := (dir st)(p \<mapsto> Plain [])\<rparr>)
      | Some bs \<Rightarrow> (None, st\<lparr>dir := (dir st)(p \<mapsto> Plain bs)\<rparr>))"

text \<open>
  \<open>p.add_run(clean_line)\<close> stores the text in the document tree: a tab, a line feed and
  a carriage return become elements of their own, and each piece of text between them is
  handed to the XML library, which encodes it (a surrogate cannot be encoded) and then
  refuses it with \<open>ValueError\<close> when it holds a character XML cannot carry: a control
  character other than tab, line feed and carriage return, U+FFFE or U+FFFF.
\<close>

definition is_surrogate :: "nat \<Rightarrow> bool" where
  "is_surrogate c = (0xD800 \<le> c \<and> c \<le> 0xDFFF)"

definition xml_char :: "nat \<Rightarrow> bool" where
  "xml_char c = ((c = 9 \<or> c = 10 \<or> c = 13 \<or> 32 \<le> c) \<and> c \<noteq> 0xFFFE \<and> c \<noteq> 0xFFFF)"

fun text_chunks :: "pystr \<Rightarrow> pystr list" where
  "text_chunks [] = [[]]"
| "text_chunks (c # cs) =
     (if c = 9 \<or> c = 10 \<or> c = 13 then [] # text_chunks cs
      else (case text_chunks cs of [] \<Rightarrow> [[c]] | l # ls \<Rightarrow> (c # l) # ls))"

definition add_t_error :: "pystr \<Rightarrow> exn option" where
  "add_t_error chunk =
     (if list_ex is_surrogate chunk then Some UnicodeEncodeError
      else if list_all xml_char chunk then None
      else Some ValueError)"

fun first_error :: "exn option list \<Rightarrow> exn option" where
  "first_error [] = None"
| "first_error (None # es) = first_error es"
| "first_error (Some e # es) = Some e"

definition add_run_error :: "pystr \<Rightarrow> exn option" where
  "add_run_error t = first_error (map add_t_error (text_chunks t))"

text \<open>
  The body of the loop of \<open>convert_plaintext_to_docx\<close> over \<open>text.splitlines()\<close>:
  \<open>doc.add_paragraph("")\<close> adds a paragraph without runs; otherwise the paragraph gets
  one run holding the cleaned line, whose bold flag is set only when the marker was there.
  An exception of \<open>add_run\<close> ends the loop.
\<close>

definition convert_line :: "pystr \<Rightarrow> exn + para" where
  "convert_line raw_line =
     (let line = rstrip_cr raw_line in
      if py_strip line = [] then Inr \<lparr>ptext = [], pruns = []\<rparr>
      else
        let had_bold_marker = has_marker line;
            clean_line = replace_marker line
        in (case add_run_error clean_line of
              Some e \<Rightarrow> Inl e
            | None \<Rightarrow>
                Inr \<lparr>ptext = clean_line,
                     pruns = [\<lparr>rtext = clean_line,
                               rbold = (if had_bold_marker then Some True else None)\<rparr>]\<rparr>))"

fun convert_lines :: "pystr list \<Rightarrow> exn + para list" where
  "convert_lines [] = Inr []"
| "convert_lines (l # ls) =
     (case convert_line l of
        Inl e \<Rightarrow> Inl e
      | Inr p \<Rightarrow> (case convert_lines ls of Inl e \<Rightarrow> Inl e | Inr ps \<Rightarrow> Inr (p # ps)))"

definition convert_text :: "pystr \<Rightarrow> exn + para list" where
  "convert_text t = convert_lines (splitlines t)"

text \<open>A serialisation used in the examples: it writes the signature of the container only.\<close>

definition signature_only :: "para list \<Rightarrow> byte list" where
  "signature_only doc = [0x50, 0x4B, 3, 4]"

definition convert_plaintext_to_docx ::
  "(para list \<Rightarrow> byte list) \<Rightarrow> string \<Rightarrow> bool \<Rightarrow> bool \<Rightarrow> conv_state
     \<Rightarrow> (exn + bool) \<times> conv_state" where
  "convert_plaintext_to_docx save src force verbose st =
     (case is_valid_docx (dir st) src of
        Inl e \<Rightarrow> (Inl e, st)
      | Inr valid \<Rightarrow>
          if valid \<and> \<not> force then
            (Inr False, if verbose then print_out (''SKIP (already valid): '' @ src) st else st)
          else
            (case read_text True (dir st) src of
               Inl e \<Rightarrow>
                 if e = UnicodeDecodeError then
                   (Inr False,
                    if verbose then print_out (''ERROR: Cannot read as text: '' @ src) st
                    else st)
                 else (Inl e, st)
             | Inr txt \<Rightarrow>
                 (case (if dir st (backup_path src) = None
                        then write_text (backup_path src) txt st else (None, st)) of
                    (Some e, st1) \<Rightarrow> (Inl e, st1)
                  | (None, st1) \<Rightarrow>
                      (case convert_text txt of
                         Inl e \<Rightarrow> (Inl e, st1)
                       | Inr doc \<Rightarrow>
                           let st2 = st1\<lparr>dir := (dir st1)(src \<mapsto> Plain (save doc))\<rparr>
                           in (Inr True,
                               if verbose then print_out (''Converted -> '' @ src) st2
                               else st2)))))"

text \<open>The loop of \<open>main\<close> over the files the pattern finds, and \<open>main\<close> itself; the result
  is the exit status.\<close>

fun convert_files ::
  "(para list \<Rightarrow> byte list) \<Rightarrow> bool \<Rightarrow> string list \<Rightarrow> nat \<Rightarrow> conv_state
     \<Rightarrow> (exn + nat) \<times> conv_state" where
  "convert_files save force [] converted st = (Inr converted, st)"
| "convert_files save force (f # fs) converted st =
     (case convert_plaintext_to_docx save f force True st of
        (Inl e, st1) \<Rightarrow> (Inl e, st1)
      | (Inr b, st1) \<Rightarrow>
          convert_files save force fs (if b then converted + 1 else converted) st1)"

definition main ::
  "(para list \<Rightarrow> byte list) \<Rightarrow> bool \<Rightarrow> string list \<Rightarrow> conv_state
     \<Rightarrow> (exn + nat) \<times> conv_state" where
  "main save force files st =
     (if files = [] then
        (Inr 1, print_err ''No transcript files found matching pattern'' st)
      else
        (case convert_files save force files 0 st of
           (Inl e, st1) \<Rightarrow> (Inl e, st1)
         | (Inr converted, st1) \<Rightarrow>
             (Inr 0, print_out (''Done. '' @ str_nat converted @ '' file(s) converted.'') st1)))"

section \<open>The aggregator\<close>

subsection \<open>Discovery\<close>

text \<open>\<open>ROOT.glob("transcript_PATIENT_*.docx")\<close> on a name.\<close>

definition glob_match :: "string \<Rightarrow> bool" where
  "glob_match n =
     (24 \<le> length n \<and> take 19 n = ''transcript_PATIENT_'' \<and> drop (length n - 5) n = ''.docx'')"

definition is_digit :: "char \<Rightarrow> bool" where
  "is_digit c = (48 \<le> (of_char c :: nat) \<and> (of_char c :: nat) \<le> 57)"

text \<open>
  \<open>TRANSCRIPT_PATTERN.search(name)\<close>. The pattern matches 27 characters, and its \<open>$\<close>
  holds at the end of the name or before a line feed that ends it; \<open>search\<close> looks for the
  leftmost place. \<open>match_fixed\<close> matches the pattern without \<open>$\<close> against exactly 27
  characters and gives group 1.
\<close>

definition match_fixed :: "string \<Rightarrow> string option" where
  "match_fixed s =
     (if length s = 27 \<and> take 19 s = ''transcript_PATIENT_''
         \<and> list_all is_digit (take 3 (drop 19 s)) \<and> drop 22 s = ''.docx''
      then Some (take 11 (drop 11 s)) else None)"

definition pattern_search :: "string \<Rightarrow> string option" where
  "pattern_search name =
     (let n = length name in
      case (if 28 \<le> n \<and> last name = CHR 0x0A then match_fixed (take 27 (drop (n - 28) name))
            else None) of
        Some pid \<Rightarrow> Some pid
      | None \<Rightarrow> if 27 \<le> n then match_fixed (drop (n - 27) name) else None)"

text \<open>\<open>s.split('_')\<close> and \<open>int(s)\<close>. \<open>int\<close> is modelled on strings of digits; every other
  string is answered with \<open>ValueError\<close> (the signs, blanks and underscores that \<open>int\<close>
  also reads never come out of the pattern).\<close>

fun py_split :: "'a \<Rightarrow> 'a list \<Rightarrow> 'a list list" where
  "py_split sep [] = [[]]"
| "py_split sep (c # cs) =
     (if c = sep then [] # py_split sep cs
      else (case py_split sep cs of [] \<Rightarrow> [[c]] | l # ls \<Rightarrow> (c # l) # ls))"

definition py_int :: "string \<Rightarrow> exn + nat" where
  "py_int s =
     (if s \<noteq> [] \<and> list_all is_digit s
      then Inr (foldl (\<lambda>a c. 10 * a + (of_char c - 48)) 0 s)
      else Inl ValueError)"

text \<open>The sort key \<open>int(t[0].split('_')[1])\<close>.\<close>

definition numeric_key :: "string \<Rightarrow> exn + nat" where
  "numeric_key pid =
     (case py_split (CHR ''_'') pid of
        a # b # rest \<Rightarrow> py_int b
      | _ \<Rightarrow> Inl IndexError)"

definition matching_files :: "string list \<Rightarrow> (string \<times> string) list" where
  "matching_files names =
     List.map_filter (\<lambda>p. map_option (\<lambda>pid. (pid, p)) (pattern_search p))
       (filter glob_match names)"

text \<open>\<open>list.sort(key=...)\<close> computes every key first, then sorts stably.\<close>

fun with_keys :: "(string \<times> string) list \<Rightarrow> exn + (nat \<times> string \<times> string) list" where
  "with_keys [] = Inr []"
| "with_keys (t # ts) =
     (case numeric_key (fst t) of
        Inl e \<Rightarrow> Inl e
      | Inr k \<Rightarrow> (case with_keys ts of Inl e \<Rightarrow> Inl e | Inr r \<Rightarrow> Inr ((k, t) # r)))"

definition iter_transcript_paths :: "string list \<Rightarrow> exn + (string \<times> string) list" where
  "iter_transcript_paths names =
     (case with_keys (matching_files names) of
        Inl e \<Rightarrow> Inl e
      | Inr kts \<Rightarrow> Inr (map snd (sort_key fst kts)))"

subsection \<open>Text acquisition\<close>

text \<open>
  What the aggregator finds: the names in the directory in the order the scan gives them,
  the files, whether the import of the document library succeeded, what the library makes
  of the file at a path (its paragraphs, or an exception), and the formatted time.
\<close>

record agg_env =
  listing :: "string list"
  files :: directory
  document_available :: bool
  load_document :: "string \<Rightarrow> exn + para list"
  generated :: string

definition read_from_backup :: "agg_env \<Rightarrow> string \<Rightarrow> pystr option" where
  "read_from_backup env orig_path =
     (if files env orig_path \<noteq> None then
        (case read_text False (files env) orig_path of Inl e \<Rightarrow> None | Inr t \<Rightarrow> Some t)
      else None)"

definition extract_line :: "para \<Rightarrow> pystr" where
  "extract_line p =
     (let t = py_rstrip (ptext p);
          runs = pruns p
      in if t = [] then []
         else if runs \<noteq> []
                 \<and> list_all (\<lambda>r. rbold r = Some True) (filter (\<lambda>r. py_strip (rtext r) \<noteq> []) runs)
         then u ''**'' @ t @ u ''**''
         else t)"

definition extract_lines :: "para list \<Rightarrow> pystr list" where
  "extract_lines doc = map extract_line doc"

definition extract_text_from_docx :: "agg_env \<Rightarrow> string \<Rightarrow> exn + pystr" where
  "extract_text_from_docx env docx_path =
     (if \<not> document_available env then Inl RuntimeError
      else (case load_document env docx_path of
              Inl e \<Rightarrow> Inl e
            | Inr doc \<Rightarrow> Inr (py_join [10] (extract_lines doc))))"

definition acquire :: "agg_env \<Rightarrow> string \<Rightarrow> exn + pystr" where
  "acquire env path =
     (case read_from_backup env (backup_path path) of
        Some content \<Rightarrow> Inr content
      | None \<Rightarrow> extract_text_from_docx env path)"

subsection \<open>Header, entries, footer\<close>

definition header_line :: "string \<Rightarrow> pystr" where
  "header_line patient_id = u ''====TRANSCRIPT: '' @ u patient_id @ u ''===='' "

definition normalize_header :: "string \<Rightarrow> pystr \<Rightarrow> pystr" where
  "normalize_header patient_id content =
     (if header_line patient_id \<notin> set (take 3 (splitlines content))
      then header_line patient_id @ [10, 10] @ py_strip content @ [10]
      else content)"

definition make_entry :: "string \<Rightarrow> pystr \<Rightarrow> pystr" where
  "make_entry patient_id content = py_strip (normalize_header patient_id content) @ [10]"

fun build_entries :: "agg_env \<Rightarrow> (string \<times> string) list \<Rightarrow> exn + pystr list" where
  "build_entries env [] = Inr []"
| "build_entries env ((patient_id, path) # ts) =
     (case acquire env path of
        Inl e \<Rightarrow> Inl e
      | Inr content \<Rightarrow>
          (case build_entries env ts of
             Inl e \<Rightarrow> Inl e
           | Inr es \<Rightarrow> Inr (make_entry patient_id content # es)))"

definition footer :: "agg_env \<Rightarrow> (string \<times> string) list \<Rightarrow> pystr" where
  "footer env transcripts =
     u ''---'' @ [10, 10] @ u ''END OF ALL TRANSCRIPTS'' @ [10, 10]
     @ u ''Generated: '' @ u (generated env) @ [10]
     @ u ''Total Patients: '' @ u (str_nat (length transcripts)) @ u '' (''
     @ u (py_join '', '' (map fst transcripts)) @ u '')'' @ [10]
     @ u ''Source: palliative_data.csv'' @ [10]
     @ u ''Format: Appendix I questionnaire structure with Esther transcript style'' @ [10]"

text \<open>
  \<open>build_aggregate\<close>: \<open>Failed e\<close> when an exception leaves the function (nothing is
  written), \<open>NoTranscripts\<close> for the return value 1 (nothing is written), \<open>Wrote t\<close> for the
  return value 0 after \<open>t\<close> has been written to the aggregate file.
\<close>

datatype agg_result = Failed exn | NoTranscripts | Wrote pystr

definition build_aggregate :: "agg_env \<Rightarrow> agg_result" where
  "build_aggregate env =
     (case iter_transcript_paths (listing env) of
        Inl e \<Rightarrow> Failed e
      | Inr transcripts \<Rightarrow>
          if transcripts = [] then NoTranscripts
          else
            (case build_entries env transcripts of
               Inl e \<Rightarrow> Failed e
             | Inr entries \<Rightarrow>
                 Wrote (py_join [10] entries @ [10] @ footer env transcripts)))"

subsection \<open>Two small directories\<close>

text \<open>
  A directory with two transcripts, listed out of order beside an unrelated file, each
  with a backup sidecar of one letter; and the same directory without sidecars. In both
  the document library is missing.
\<close>

definition two_backups_env :: agg_env where
  "two_backups_env =
     \<lparr>listing = [''transcript_PATIENT_010.docx'', ''notes.txt'', ''transcript_PATIENT_002.docx''],
      files = [''transcript_PATIENT_010.docx.orig.txt'' \<mapsto> Plain [0x42],
               ''transcript_PATIENT_002.docx.orig.txt'' \<mapsto> Plain [0x41]],
      document_available = False,
      load_document = (\<lambda>p. Inl DocumentError),
      generated = ''2025-01-01 00:00 UTC''\<rparr>"

definition no_backup_env :: agg_env where
  "no_backup_env =
     \<lparr>listing = [''transcript_PATIENT_010.docx'', ''notes.txt'', ''transcript_PATIENT_002.docx''],
      files = Map.empty,
      document_available = False,
      load_document = (\<lambda>p. Inl DocumentError),
      generated = ''2025-01-01 00:00 UTC''\<rparr>"

section \<open>Properties of the string operations\<close>

lemma marker_needs_two: "(l :: pystr) = pre @ [42, 42] @ post \<Longrightarrow> 2 \<le> length l"
  by simp

lemma has_marker_iff: "has_marker l \<longleftrightarrow> (\<exists>pre post. l = pre @ [42, 42] @ post)"
proof (induction l rule: has_marker.induct)
  case (1 a b cs)
  show ?case
  proof
    assume "has_marker (a # b # cs)"
    then consider "a = 42 \<and> b = 42" | "has_marker (b # cs)" by auto
    then show "\<exists>pre post. a # b # cs = pre @ [42, 42] @ post"
    proof cases
      case 1
      then have "a # b # cs = [] @ [42, 42] @ cs" by simp
      then show ?thesis by blast
    next
      case 2
      with "1.IH" obtain pre post where "b # cs = pre @ [42, 42] @ post" by blast
      then have "a # b # cs = (a # pre) @ [42, 42] @ post" by simp
      then show ?thesis by blast
    qed
  next
    assume "\<exists>pre post. a # b # cs = pre @ [42, 42] @ post"
    then obtain pre post where e: "a # b # cs = pre @ [42, 42] @ post" by blast
    show "has_marker (a # b # cs)"
    proof (cases pre)
      case Nil
      with e show ?thesis by simp
    next
      case (Cons x pre')
      with e have "b # cs = pre' @ [42, 42] @ post" by simp
      with "1.IH" have "has_marker (b # cs)" by blast
      then show ?thesis by simp
    qed
  qed
qed (auto dest: marker_needs_two)

lemma has_marker_Cons_other: "a \<noteq> 42 \<Longrightarrow> has_marker (a # xs) = has_marker xs"
  by (cases xs) auto

lemma replace_marker_Cons_other: "b \<noteq> 42 \<Longrightarrow> replace_marker (b # cs) = b # replace_marker cs"
  by (cases cs) auto

lemma replace_marker_clean: "\<not> has_marker (replace_marker l)"
proof (induction l rule: replace_marker.induct)
  case (1 a b cs)
  show ?case
  proof (cases "a = 42 \<and> b = 42")
    case True
    with 1 show ?thesis by simp
  next
    case False
    with 1 have ih: "\<not> has_marker (replace_marker (b # cs))" by simp
    show ?thesis
    proof (cases "a = 42")
      case True
      with False have "b \<noteq> 42" by simp
      then have "replace_marker (b # cs) = b # replace_marker cs"
        by (rule replace_marker_Cons_other)
      with ih False \<open>b \<noteq> 42\<close> show ?thesis by simp
    next
      case False
      with ih show ?thesis by (simp add: has_marker_Cons_other)
    qed
  qed
qed simp_all

lemma replace_marker_filter:
  "filter (\<lambda>c. c \<noteq> 42) (replace_marker l) = filter (\<lambda>c. c \<noteq> 42) l"
  by (induction l rule: replace_marker.induct) auto

lemma replace_marker_subseq: "subseq (replace_marker l) l"
  by (induction l rule: replace_marker.induct) (auto intro: subseq_Cons')

lemma replace_marker_id: "\<not> has_marker l \<Longrightarrow> replace_marker l = l"
  by (induction l rule: replace_marker.induct) auto

lemma splitlines_no_break: "l \<in> set (splitlines t) \<Longrightarrow> c \<in> set l \<Longrightarrow> \<not> is_linebreak c"
proof (induction t arbitrary: l rule: splitlines.induct)
  case 1
  then show ?case by simp
next
  case (2 c')
  then show ?case by (auto split: if_splits)
next
  case (3 c' d ds)
  show ?case
  proof (cases "c' = 13 \<and> d = 10")
    case True
    with 3 show ?thesis by auto
  next
    case nocrlf: False
    show ?thesis
    proof (cases "is_linebreak c'")
      case True
      with nocrlf 3 show ?thesis by auto
    next
      case False
      show ?thesis
      proof (cases "splitlines (d # ds)")
        case Nil
        with False nocrlf 3 show ?thesis by auto
      next
        case (Cons l' ls)
        with False nocrlf "3.prems" have "l = c' # l' \<or> l \<in> set ls" by auto
        then show ?thesis
        proof
          assume "l = c' # l'"
          with "3.prems" have "c = c' \<or> c \<in> set l'" by auto
          then show ?thesis
          proof
            assume "c = c'"
            with False show ?thesis by simp
          next
            assume "c \<in> set l'"
            moreover have "l' \<in> set (splitlines (d # ds))" using Cons by simp
            ultimately show ?thesis using "3.IH"(3) nocrlf False by blast
          qed
        next
          assume "l \<in> set ls"
          then have "l \<in> set (splitlines (d # ds))" using Cons by simp
          then show ?thesis using "3.IH"(3) nocrlf False "3.prems"(2) by blast
        qed
      qed
    qed
  qed
qed

lemma rstrip_cr_id: "13 \<notin> set l \<Longrightarrow> rstrip_cr l = l"
proof -
  assume a: "13 \<notin> set l"
  have "dropWhile (\<lambda>c. c = 13) (rev l) = rev l"
  proof (cases "rev l")
    case Nil
    then show ?thesis by simp
  next
    case (Cons x xs)
    then have "x \<in> set l" by (metis list.set_intros(1) set_rev)
    with a have "x \<noteq> 13" by auto
    with Cons show ?thesis by simp
  qed
  then show ?thesis by (simp add: rstrip_cr_def)
qed

lemma splitlines_rstrip_cr: "l \<in> set (splitlines t) \<Longrightarrow> rstrip_cr l = l"
proof -
  assume "l \<in> set (splitlines t)"
  then have "13 \<notin> set l"
    using splitlines_no_break [of l t 13] by (auto simp: is_linebreak_def)
  then show ?thesis by (rule rstrip_cr_id)
qed

section \<open>The converter's line transform (C2)\<close>

lemma text_chunks_member:
  "ch \<in> set (text_chunks t) \<Longrightarrow> c \<in> set ch \<Longrightarrow> c \<in> set t"
proof (induction t arbitrary: ch)
  case Nil
  then show ?case by simp
next
  case (Cons a t)
  show ?case
  proof (cases "a = 9 \<or> a = 10 \<or> a = 13")
    case True
    with Cons.prems have "ch \<in> set (text_chunks t)" by auto
    with Cons.IH Cons.prems(2) show ?thesis by auto
  next
    case False
    show ?thesis
    proof (cases "text_chunks t")
      case Nil
      with False Cons.prems show ?thesis by auto
    next
      case (Cons l ls)
      with False Cons.prems(1) have "ch = a # l \<or> ch \<in> set ls" by auto
      then show ?thesis
      proof
        assume "ch = a # l"
        with Cons.prems(2) have "c = a \<or> c \<in> set l" by auto
        moreover have "l \<in> set (text_chunks t)" using Cons by simp
        ultimately show ?thesis using Cons.IH by auto
      next
        assume "ch \<in> set ls"
        then have "ch \<in> set (text_chunks t)" using Cons by simp
        with Cons.IH Cons.prems(2) show ?thesis by auto
      qed
    qed
  qed
qed

lemma text_chunks_cover:
  "c \<in> set t \<Longrightarrow> c \<noteq> 9 \<Longrightarrow> c \<noteq> 10 \<Longrightarrow> c \<noteq> 13 \<Longrightarrow> \<exists>ch \<in> set (text_chunks t). c \<in> set ch"
proof (induction t)
  case Nil
  then show ?case by simp
next
  case (Cons a t)
  show ?case
  proof (cases "a = 9 \<or> a = 10 \<or> a = 13")
    case True
    with Cons.prems have "c \<in> set t" by auto
    with Cons.IH Cons.prems obtain ch where "ch \<in> set (text_chunks t)" "c \<in> set ch" by blast
    with True show ?thesis by auto
  next
    case False
    show ?thesis
    proof (cases "text_chunks t")
      case Nil
      have "text_chunks t \<noteq> []" by (cases t) (auto split: list.splits)
      with Nil show ?thesis by simp
    next
      case (Cons l ls)
      show ?thesis
      proof (cases "c = a")
        case True
        with False Cons show ?thesis by auto
      next
        case ne: False
        with Cons.prems have "c \<in> set t" by auto
        with Cons.IH Cons.prems obtain ch where ch: "ch \<in> set (text_chunks t)" "c \<in> set ch"
          by blast
        with Cons have "ch = l \<or> ch \<in> set ls" by auto
        with False Cons ch(2) show ?thesis by auto
      qed
    qed
  qed
qed

lemma first_error_None: "first_error (map f xs) = None \<longleftrightarrow> (\<forall>x \<in> set xs. f x = None)"
proof (induction xs)
  case Nil
  show ?case by simp
next
  case (Cons x xs)
  then show ?case by (cases "f x") auto
qed

lemma first_error_only:
  assumes "\<forall>x \<in> set xs. f x = None \<or> f x = Some e"
    and "\<exists>x \<in> set xs. f x = Some e"
  shows "first_error (map f xs) = Some e"
  using assms
proof (induction xs)
  case Nil
  then show ?case by simp
next
  case (Cons x xs)
  then show ?case by (cases "f x") auto
qed

lemma add_run_error_None:
  assumes "\<forall>c \<in> set t. xml_char c \<and> \<not> is_surrogate c"
  shows "add_run_error t = None"
proof -
  have "\<forall>ch \<in> set (text_chunks t). add_t_error ch = None"
  proof
    fix ch assume "ch \<in> set (text_chunks t)"
    then have "\<forall>c \<in> set ch. xml_char c \<and> \<not> is_surrogate c"
      using assms text_chunks_member by blast
    then show "add_t_error ch = None" by (simp add: add_t_error_def list_all_iff list_ex_iff)
  qed
  then show ?thesis by (simp add: add_run_error_def first_error_None)
qed

lemma add_run_error_ValueError:
  assumes "\<forall>c \<in> set t. \<not> is_surrogate c" and "\<exists>c \<in> set t. \<not> xml_char c"
  shows "add_run_error t = Some ValueError"
proof -
  have a: "\<forall>ch \<in> set (text_chunks t). add_t_error ch = None \<or> add_t_error ch = Some ValueError"
  proof
    fix ch assume "ch \<in> set (text_chunks t)"
    then have "\<forall>c \<in> set ch. \<not> is_surrogate c" using assms(1) text_chunks_member by blast
    then show "add_t_error ch = None \<or> add_t_error ch = Some ValueError"
      by (simp add: add_t_error_def list_ex_iff)
  qed
  from assms(2) obtain c where c: "c \<in> set t" "\<not> xml_char c" by blast
  then have "c \<noteq> 9" "c \<noteq> 10" "c \<noteq> 13" by (auto simp: xml_char_def)
  with c(1) obtain ch where ch: "ch \<in> set (text_chunks t)" "c \<in> set ch"
    using text_chunks_cover by blast
  then have "\<forall>c \<in> set ch. \<not> is_surrogate c" using assms(1) text_chunks_member by blast
  with ch(2) c(2) have "add_t_error ch = Some ValueError"
    by (auto simp: add_t_error_def list_ex_iff list_all_iff)
  with ch(1) have b: "\<exists>ch \<in> set (text_chunks t). add_t_error ch = Some ValueError" by blast
  from first_error_only [OF a b] show ?thesis by (simp add: add_run_error_def)
qed

lemma replace_marker_set: "set (replace_marker l) \<subseteq> set l"
  by (induction l rule: replace_marker.induct) auto

lemma replace_marker_keeps:
  assumes "c \<in> set l" and "c \<noteq> 42"
  shows "c \<in> set (replace_marker l)"
proof -
  from assms have "c \<in> set (filter (\<lambda>c. c \<noteq> 42) l)" by simp
  then have "c \<in> set (filter (\<lambda>c. c \<noteq> 42) (replace_marker l))"
    by (simp only: replace_marker_filter)
  then show ?thesis by simp
qed

lemma convert_lines_Inr:
  "convert_lines ls = Inr ps \<Longrightarrow>
     length ps = length ls \<and> (\<forall>i < length ps. convert_line (ls ! i) = Inr (ps ! i))"
proof (induction ls arbitrary: ps)
  case Nil
  then show ?case by simp
next
  case (Cons l ls)
  from Cons.prems obtain p ps' where p: "convert_line l = Inr p"
    and r: "convert_lines ls = Inr ps'" and ps: "ps = p # ps'"
    by (auto split: sum.splits)
  from Cons.IH [OF r] have ih: "length ps' = length ls"
    "\<forall>i < length ps'. convert_line (ls ! i) = Inr (ps' ! i)" by simp_all
  show ?case
  proof (intro conjI allI impI)
    show "length ps = length (l # ls)" using ps ih(1) by simp
  next
    fix i assume "i < length ps"
    then show "convert_line ((l # ls) ! i) = Inr (ps ! i)"
      using ps p ih by (cases i) auto
  qed
qed

lemma convert_lines_Inl:
  "convert_lines ls = Inl e \<Longrightarrow> \<exists>l \<in> set ls. convert_line l = Inl e"
proof (induction ls)
  case Nil
  then show ?case by simp
next
  case (Cons l ls)
  then show ?case by (cases "convert_line l"; cases "convert_lines ls") auto
qed

lemma convert_lines_total:
  "\<forall>l \<in> set ls. \<exists>p. convert_line l = Inr p \<Longrightarrow> \<exists>ps. convert_lines ls = Inr ps"
proof (induction ls)
  case Nil
  then show ?case by simp
next
  case (Cons l ls)
  then obtain p ps where "convert_line l = Inr p" "convert_lines ls = Inr ps" by auto
  then show ?case by simp
qed

lemma convert_line_blank:
  "py_strip (rstrip_cr l) = [] \<Longrightarrow> convert_line l = Inr \<lparr>ptext = [], pruns = []\<rparr>"
  by (simp add: convert_line_def)

lemma convert_line_ok:
  assumes "py_strip (rstrip_cr l) \<noteq> []"
    and "\<forall>c \<in> set (rstrip_cr l). xml_char c \<and> \<not> is_surrogate c"
  shows "convert_line l =
           Inr \<lparr>ptext = replace_marker (rstrip_cr l),
                pruns = [\<lparr>rtext = replace_marker (rstrip_cr l),
                          rbold = (if has_marker (rstrip_cr l) then Some True else None)\<rparr>]\<rparr>"
proof -
  have "\<forall>c \<in> set (replace_marker (rstrip_cr l)). xml_char c \<and> \<not> is_surrogate c"
    using assms(2) replace_marker_set by blast
  then have "add_run_error (replace_marker (rstrip_cr l)) = None" by (rule add_run_error_None)
  with assms(1) show ?thesis by (simp add: convert_line_def Let_def)
qed

lemma convert_line_raises:
  assumes "py_strip (rstrip_cr l) \<noteq> []"
    and "\<forall>c \<in> set (rstrip_cr l). \<not> is_surrogate c"
    and "\<exists>c \<in> set (rstrip_cr l). \<not> xml_char c"
  shows "convert_line l = Inl ValueError"
proof -
  from assms(3) obtain c where c: "c \<in> set (rstrip_cr l)" "\<not> xml_char c" by blast
  then have "c \<noteq> 42" by (auto simp: xml_char_def)
  with c(1) have "c \<in> set (replace_marker (rstrip_cr l))" by (rule replace_marker_keeps)
  with c(2) have e: "\<exists>c \<in> set (replace_marker (rstrip_cr l)). \<not> xml_char c" by blast
  have n: "\<forall>c \<in> set (replace_marker (rstrip_cr l)). \<not> is_surrogate c"
    using assms(2) replace_marker_set by blast
  from add_run_error_ValueError [OF n e] assms(1) show ?thesis
    by (simp add: convert_line_def Let_def)
qed

lemma splitlines_subset: "l \<in> set (splitlines t) \<Longrightarrow> set l \<subseteq> set t"
proof (induction t arbitrary: l rule: splitlines.induct)
  case 1
  then show ?case by simp
next
  case (2 c)
  then show ?case by (auto split: if_splits)
next
  case (3 c d ds)
  show ?case
  proof (cases "c = 13 \<and> d = 10")
    case True
    with 3 show ?thesis by auto
  next
    case nocrlf: False
    show ?thesis
    proof (cases "is_linebreak c")
      case True
      with nocrlf "3.prems" have "l = [] \<or> l \<in> set (splitlines (d # ds))" by auto
      then show ?thesis
      proof
        assume "l = []"
        then show ?thesis by simp
      next
        assume "l \<in> set (splitlines (d # ds))"
        with "3.IH"(2) nocrlf True have "set l \<subseteq> set (d # ds)" by blast
        then show ?thesis by auto
      qed
    next
      case False
      show ?thesis
      proof (cases "splitlines (d # ds)")
        case Nil
        with False nocrlf 3 show ?thesis by auto
      next
        case (Cons l' ls)
        with False nocrlf "3.prems" have "l = c # l' \<or> l \<in> set ls" by auto
        then show ?thesis
        proof
          assume e: "l = c # l'"
          have "l' \<in> set (splitlines (d # ds))" using Cons by simp
          with "3.IH"(3) nocrlf False have "set l' \<subseteq> set (d # ds)" by blast
          with e show ?thesis by auto
        next
          assume "l \<in> set ls"
          then have "l \<in> set (splitlines (d # ds))" using Cons by simp
          with "3.IH"(3) nocrlf False have "set l \<subseteq> set (d # ds)" by blast
          then show ?thesis by auto
        qed
      qed
    qed
  qed
qed

text \<open>
  C2, as amended. The converter goes through the lines of the text in order and builds
  one paragraph per line, unless \<open>add_run\<close> raises, which ends the conversion. For a line
  \<open>l\<close> that it processes: if \<open>l\<close> is blank (nothing but white space) the paragraph is
  empty, without any run. If \<open>l\<close> is not blank and every character of it can be carried
  by XML, the paragraph has exactly one run, whose text is \<open>l\<close> with the occurrences of
  \<open>**\<close> replaced by nothing (no \<open>**\<close> is left in it, only \<open>*\<close> characters have gone,
  and a line without \<open>**\<close> is kept as it is), and the run is bold exactly when \<open>**\<close>
  occurs in \<open>l\<close> (its bold flag is left unset otherwise). If \<open>l\<close> is not blank and holds
  a character XML cannot carry, \<open>add_run\<close> raises \<open>ValueError\<close> and no paragraph is made.
  The lines \<open>**Question 1**\<close>, the empty line and \<open>An answer.\<close> give the three
  paragraphs of the example.
\<close>

theorem convert_line_transform:
  assumes "l \<in> set (splitlines t)"
  shows "(\<forall>ps. convert_text t = Inr ps \<longrightarrow>
            length ps = length (splitlines t)
            \<and> (\<forall>i < length ps. convert_line (splitlines t ! i) = Inr (ps ! i)))
    \<and> (\<forall>e. convert_text t = Inl e \<longrightarrow> (\<exists>l' \<in> set (splitlines t). convert_line l' = Inl e))
    \<and> ((\<forall>c \<in> set t. xml_char c \<and> \<not> is_surrogate c) \<longrightarrow> (\<exists>ps. convert_text t = Inr ps))
    \<and> (py_strip l = [] \<longrightarrow> convert_line l = Inr \<lparr>ptext = [], pruns = []\<rparr>)
    \<and> (py_strip l \<noteq> [] \<and> (\<forall>c \<in> set l. xml_char c \<and> \<not> is_surrogate c) \<longrightarrow>
         (\<exists>txt b. convert_line l = Inr \<lparr>ptext = txt, pruns = [\<lparr>rtext = txt, rbold = b\<rparr>]\<rparr>
            \<and> txt = replace_marker l
            \<and> (\<nexists>pre post. txt = pre @ [42, 42] @ post)
            \<and> filter (\<lambda>c. c \<noteq> 42) txt = filter (\<lambda>c. c \<noteq> 42) l
            \<and> subseq txt l
            \<and> ((\<nexists>pre post. l = pre @ [42, 42] @ post) \<longrightarrow> txt = l)
            \<and> (b = Some True \<longleftrightarrow> (\<exists>pre post. l = pre @ [42, 42] @ post))
            \<and> (b \<noteq> Some True \<longrightarrow> b = None)))
    \<and> (py_strip l \<noteq> [] \<and> (\<forall>c \<in> set l. \<not> is_surrogate c) \<and> (\<exists>c \<in> set l. \<not> xml_char c) \<longrightarrow>
         convert_line l = Inl ValueError)
    \<and> convert_lines [u ''**Question 1**'', [], u ''An answer.'']
        = Inr [\<lparr>ptext = u ''Question 1'',
                 pruns = [\<lparr>rtext = u ''Question 1'', rbold = Some True\<rparr>]\<rparr>,
               \<lparr>ptext = [], pruns = []\<rparr>,
               \<lparr>ptext = u ''An answer.'',
                 pruns = [\<lparr>rtext = u ''An answer.'', rbold = None\<rparr>]\<rparr>]"
proof -
  have cr: "rstrip_cr l = l" using assms by (rule splitlines_rstrip_cr)
  have A: "\<forall>ps. convert_text t = Inr ps \<longrightarrow>
            length ps = length (splitlines t)
            \<and> (\<forall>i < length ps. convert_line (splitlines t ! i) = Inr (ps ! i))"
    using convert_lines_Inr by (simp add: convert_text_def)
  have A2: "\<forall>e. convert_text t = Inl e \<longrightarrow> (\<exists>l' \<in> set (splitlines t). convert_line l' = Inl e)"
    using convert_lines_Inl by (simp add: convert_text_def)
  have A3: "(\<forall>c \<in> set t. xml_char c \<and> \<not> is_surrogate c) \<longrightarrow> (\<exists>ps. convert_text t = Inr ps)"
  proof
    assume ok: "\<forall>c \<in> set t. xml_char c \<and> \<not> is_surrogate c"
    have "\<forall>l' \<in> set (splitlines t). \<exists>p. convert_line l' = Inr p"
    proof
      fix l' assume m: "l' \<in> set (splitlines t)"
      then have cr': "rstrip_cr l' = l'" by (rule splitlines_rstrip_cr)
      have sub: "set l' \<subseteq> set t" using m by (rule splitlines_subset)
      show "\<exists>p. convert_line l' = Inr p"
      proof (cases "py_strip l' = []")
        case True
        then show ?thesis using convert_line_blank [of l'] by (simp add: cr')
      next
        case False
        moreover have "\<forall>c \<in> set l'. xml_char c \<and> \<not> is_surrogate c" using ok sub by blast
        ultimately show ?thesis using convert_line_ok [of l'] by (simp add: cr')
      qed
    qed
    then show "\<exists>ps. convert_text t = Inr ps"
      unfolding convert_text_def by (rule convert_lines_total)
  qed
  have B: "py_strip l = [] \<longrightarrow> convert_line l = Inr \<lparr>ptext = [], pruns = []\<rparr>"
    using convert_line_blank [of l] by (simp add: cr)
  have C: "py_strip l \<noteq> [] \<and> (\<forall>c \<in> set l. xml_char c \<and> \<not> is_surrogate c) \<longrightarrow>
         (\<exists>txt b. convert_line l = Inr \<lparr>ptext = txt, pruns = [\<lparr>rtext = txt, rbold = b\<rparr>]\<rparr>
            \<and> txt = replace_marker l
            \<and> (\<nexists>pre post. txt = pre @ [42, 42] @ post)
            \<and> filter (\<lambda>c. c \<noteq> 42) txt = filter (\<lambda>c. c \<noteq> 42) l
            \<and> subseq txt l
            \<and> ((\<nexists>pre post. l = pre @ [42, 42] @ post) \<longrightarrow> txt = l)
            \<and> (b = Some True \<longleftrightarrow> (\<exists>pre post. l = pre @ [42, 42] @ post))
            \<and> (b \<noteq> Some True \<longrightarrow> b = None))"
  proof
    assume h: "py_strip l \<noteq> [] \<and> (\<forall>c \<in> set l. xml_char c \<and> \<not> is_surrogate c)"
    let ?txt = "replace_marker l"
    let ?b = "if has_marker l then Some True else None"
    have 1: "convert_line l = Inr \<lparr>ptext = ?txt, pruns = [\<lparr>rtext = ?txt, rbold = ?b\<rparr>]\<rparr>"
      using h convert_line_ok [of l] by (simp add: cr)
    have 2: "\<nexists>pre post. ?txt = pre @ [42, 42] @ post"
      using replace_marker_clean [of l] by (simp add: has_marker_iff)
    have 3: "filter (\<lambda>c. c \<noteq> 42) ?txt = filter (\<lambda>c. c \<noteq> 42) l"
      by (rule replace_marker_filter)
    have 4: "subseq ?txt l" by (rule replace_marker_subseq)
    have 5: "(\<nexists>pre post. l = pre @ [42, 42] @ post) \<longrightarrow> ?txt = l"
      using replace_marker_id [of l] by (simp add: has_marker_iff)
    have 6: "?b = Some True \<longleftrightarrow> (\<exists>pre post. l = pre @ [42, 42] @ post)"
      using has_marker_iff [of l] by simp
    have 7: "?b \<noteq> Some True \<longrightarrow> ?b = None" by simp
    from 1 2 3 4 5 6 7
    show "\<exists>txt b. convert_line l = Inr \<lparr>ptext = txt, pruns = [\<lparr>rtext = txt, rbold = b\<rparr>]\<rparr>
            \<and> txt = replace_marker l
            \<and> (\<nexists>pre post. txt = pre @ [42, 42] @ post)
            \<and> filter (\<lambda>c. c \<noteq> 42) txt = filter (\<lambda>c. c \<noteq> 42) l
            \<and> subseq txt l
            \<and> ((\<nexists>pre post. l = pre @ [42, 42] @ post) \<longrightarrow> txt = l)
            \<and> (b = Some True \<longleftrightarrow> (\<exists>pre post. l = pre @ [42, 42] @ post))
            \<and> (b \<noteq> Some True \<longrightarrow> b = None)"
      by blast
  qed
  have D: "py_strip l \<noteq> [] \<and> (\<forall>c \<in> set l. \<not> is_surrogate c) \<and> (\<exists>c \<in> set l. \<not> xml_char c) \<longrightarrow>
         convert_line l = Inl ValueError"
    using convert_line_raises [of l] by (simp add: cr)
  have E: "convert_lines [u ''**Question 1**'', [], u ''An answer.'']
        = Inr [\<lparr>ptext = u ''Question 1'',
                 pruns = [\<lparr>rtext = u ''Question 1'', rbold = Some True\<rparr>]\<rparr>,
               \<lparr>ptext = [], pruns = []\<rparr>,
               \<lparr>ptext = u ''An answer.'',
                 pruns = [\<lparr>rtext = u ''An answer.'', rbold = None\<rparr>]\<rparr>]"
    by (simp add: convert_line_def Let_def u_def rstrip_cr_def py_strip_def py_rstrip_def
        py_lstrip_def py_isspace_def add_run_error_def add_t_error_def xml_char_def
        is_surrogate_def)
  from A A2 A3 B C D E show ?thesis by blast
qed

theorem convert_line_transform_witness:
  "u ''**Q**'' \<in> set (splitlines (u ''**Q**'' @ [10] @ [10] @ u ''A.''))
   \<and> list_all (\<lambda>c. xml_char c \<and> \<not> is_surrogate c) (u ''**Q**'' @ [10] @ [10] @ u ''A.'')
   \<and> py_strip (u ''**Q**'') = u ''**Q**''
   \<and> convert_line (u ''**Q**'')
       = Inr \<lparr>ptext = u ''Q'', pruns = [\<lparr>rtext = u ''Q'', rbold = Some True\<rparr>]\<rparr>
   \<and> convert_text (u ''**Q**'' @ [10] @ [10] @ u ''A.'')
       = Inr [\<lparr>ptext = u ''Q'', pruns = [\<lparr>rtext = u ''Q'', rbold = Some True\<rparr>]\<rparr>,
              \<lparr>ptext = [], pruns = []\<rparr>,
              \<lparr>ptext = u ''A.'', pruns = [\<lparr>rtext = u ''A.'', rbold = None\<rparr>]\<rparr>]"
proof -
  let ?t = "u ''**Q**'' @ [10] @ [10] @ u ''A.''"
  have s: "splitlines ?t = [u ''**Q**'', [], u ''A.'']"
    by (simp add: u_def is_linebreak_def)
  then have h: "u ''**Q**'' \<in> set (splitlines ?t)" by simp
  have ok: "list_all (\<lambda>c. xml_char c \<and> \<not> is_surrogate c) ?t"
    by (simp add: u_def xml_char_def is_surrogate_def)
  have ok': "\<forall>c \<in> set (u ''**Q**''). xml_char c \<and> \<not> is_surrogate c"
    by (simp add: u_def xml_char_def is_surrogate_def)
  have n: "py_strip (u ''**Q**'') = u ''**Q**''"
    by (simp add: u_def py_strip_def py_rstrip_def py_lstrip_def py_isspace_def)
  then have n': "py_strip (u ''**Q**'') \<noteq> []" by (simp add: u_def)
  have rm: "replace_marker (u ''**Q**'') = u ''Q''" by (simp add: u_def)
  have hm: "\<exists>pre post. u ''**Q**'' = pre @ [42, 42] @ post"
    using has_marker_iff [of "u ''**Q**''"] by (simp add: u_def)
  note r = convert_line_transform [OF h]
  from r n' ok' obtain tx b where
    c: "convert_line (u ''**Q**'') = Inr \<lparr>ptext = tx, pruns = [\<lparr>rtext = tx, rbold = b\<rparr>]\<rparr>"
    and t: "tx = replace_marker (u ''**Q**'')"
    and b: "b = Some True \<longleftrightarrow> (\<exists>pre post. u ''**Q**'' = pre @ [42, 42] @ post)"
    by blast
  from b hm have "b = Some True" by simp
  with c t rm have c1: "convert_line (u ''**Q**'')
       = Inr \<lparr>ptext = u ''Q'', pruns = [\<lparr>rtext = u ''Q'', rbold = Some True\<rparr>]\<rparr>" by simp
  have c2: "convert_line [] = Inr \<lparr>ptext = [], pruns = []\<rparr>"
    by (simp add: convert_line_def rstrip_cr_def py_strip_def py_rstrip_def py_lstrip_def)
  have c3: "convert_line (u ''A.'')
       = Inr \<lparr>ptext = u ''A.'', pruns = [\<lparr>rtext = u ''A.'', rbold = None\<rparr>]\<rparr>"
    by (simp add: convert_line_def Let_def u_def rstrip_cr_def py_strip_def py_rstrip_def
        py_lstrip_def py_isspace_def add_run_error_def add_t_error_def xml_char_def
        is_surrogate_def)
  have ct: "convert_text ?t
       = Inr [\<lparr>ptext = u ''Q'', pruns = [\<lparr>rtext = u ''Q'', rbold = Some True\<rparr>]\<rparr>,
              \<lparr>ptext = [], pruns = []\<rparr>,
              \<lparr>ptext = u ''A.'', pruns = [\<lparr>rtext = u ''A.'', rbold = None\<rparr>]\<rparr>]"
    unfolding convert_text_def s by (simp add: c1 c2 c3)
  from h ok n c1 ct show ?thesis by (simp only: simp_thms)
qed

theorem convert_line_transform_counterexample:
  "splitlines [97, 1, 98] = [[97, 1, 98]]
   \<and> py_strip [97, 1, 98] = [97, 1, 98]
   \<and> convert_line [97, 1, 98] = Inl ValueError
   \<and> convert_text [97, 1, 98] = Inl ValueError"
  by (simp add: convert_text_def convert_line_def Let_def rstrip_cr_def py_strip_def
      py_rstrip_def py_lstrip_def py_isspace_def is_linebreak_def add_run_error_def
      add_t_error_def xml_char_def is_surrogate_def)

section \<open>The converter: files\<close>

lemma is_valid_docx_Inr: "\<exists>b. is_valid_docx d p = Inr b"
  by (auto simp: is_valid_docx_def read_bytes_def split: option.splits fentry.splits)

lemma convert_keeps_existing:
  assumes "dir st q = Some b" and "q \<noteq> f"
  shows "dir (snd (convert_plaintext_to_docx save f force verbose st)) q = Some b"
  using assms
  by (auto simp: convert_plaintext_to_docx_def write_text_def print_out_def Let_def
      split: sum.splits option.splits if_splits prod.splits)

lemma convert_files_keeps_existing:
  assumes "dir st q = Some b" and "q \<notin> set fs"
  shows "dir (snd (convert_files save force fs n st)) q = Some b"
  using assms
proof (induction fs arbitrary: n st)
  case Nil
  then show ?case by simp
next
  case (Cons f fs)
  from Cons.prems have k: "dir (snd (convert_plaintext_to_docx save f force True st)) q = Some b"
    by (intro convert_keeps_existing) auto
  obtain r st1 where c: "convert_plaintext_to_docx save f force True st = (r, st1)"
    by (cases "convert_plaintext_to_docx save f force True st")
  with k have k1: "dir st1 q = Some b" by simp
  show ?case
  proof (cases r)
    case (Inl e)
    with c k1 show ?thesis by simp
  next
    case (Inr x)
    with c k1 Cons.IH [of st1] Cons.prems(2) show ?thesis by simp
  qed
qed

lemma glob_not_backup: "glob_match f \<Longrightarrow> f \<noteq> backup_path src"
proof
  assume g: "glob_match f" and e: "f = backup_path src"
  from e have "drop (length f - 5) f = ''g.txt''" by (simp add: backup_path_def)
  with g show False by (simp add: glob_match_def)
qed

lemma main_keeps_existing:
  assumes "dir st q = Some b" and "q \<notin> set fs"
  shows "dir (snd (main save force fs st)) q = Some b"
proof (cases "fs = []")
  case True
  with assms show ?thesis by (simp add: main_def print_err_def)
next
  case False
  obtain r st1 where c: "convert_files save force fs 0 st = (r, st1)"
    by (cases "convert_files save force fs 0 st")
  with convert_files_keeps_existing [OF assms, of save force 0] have "dir st1 q = Some b"
    by simp
  with False c show ?thesis by (cases r) (simp_all add: main_def print_out_def)
qed

text \<open>
  C5, as amended. Once the backup sidecar of a source file exists, a conversion of that
  file leaves it as it is, whatever the flags, and so does a second conversion after the
  first: the backup is written only when no sidecar exists. A whole run of the converter
  leaves it as it is whenever the sidecar is not itself among the files of the run, which
  holds for every run over files found by the pattern \<open>transcript_PATIENT_*.docx\<close>.
\<close>

theorem backup_first_write_wins:
  assumes "dir st (backup_path src) = Some b"
  shows "dir (snd (convert_plaintext_to_docx save src force verbose st)) (backup_path src) = Some b
    \<and> dir (snd (convert_plaintext_to_docx save src force' verbose'
                  (snd (convert_plaintext_to_docx save src force verbose st)))) (backup_path src)
        = Some b
    \<and> (backup_path src \<notin> set fs \<longrightarrow>
          dir (snd (main save force fs st)) (backup_path src) = Some b)
    \<and> ((\<forall>f \<in> set fs. glob_match f) \<longrightarrow>
          dir (snd (main save force fs st)) (backup_path src) = Some b)"
proof -
  have ne: "backup_path src \<noteq> src" by (simp add: backup_path_def)
  have A: "dir (snd (convert_plaintext_to_docx save src force verbose st)) (backup_path src) = Some b"
    using assms ne by (rule convert_keeps_existing)
  have B: "dir (snd (convert_plaintext_to_docx save src force' verbose'
                  (snd (convert_plaintext_to_docx save src force verbose st)))) (backup_path src)
        = Some b"
    using A ne by (rule convert_keeps_existing)
  have C: "backup_path src \<notin> set fs \<longrightarrow>
          dir (snd (main save force fs st)) (backup_path src) = Some b"
    using assms by (auto intro: main_keeps_existing)
  have D: "(\<forall>f \<in> set fs. glob_match f) \<longrightarrow>
          dir (snd (main save force fs st)) (backup_path src) = Some b"
  proof
    assume "\<forall>f \<in> set fs. glob_match f"
    then have "backup_path src \<notin> set fs" using glob_not_backup by blast
    with assms show "dir (snd (main save force fs st)) (backup_path src) = Some b"
      by (rule main_keeps_existing)
  qed
  from A B C D show ?thesis by blast
qed

theorem backup_first_write_wins_counterexample:
  "dir \<lparr>dir = [''transcript_PATIENT_001.docx'' \<mapsto> Plain [0x50, 0x4B, 3, 4],
              ''transcript_PATIENT_001.docx.orig.txt'' \<mapsto> Plain [0x41]],
        stdout = [], stderr = []\<rparr> (backup_path ''transcript_PATIENT_001.docx'')
     = Some (Plain [0x41])
   \<and> dir (snd (main signature_only False
          [''transcript_PATIENT_001.docx'', ''transcript_PATIENT_001.docx.orig.txt'']
          \<lparr>dir = [''transcript_PATIENT_001.docx'' \<mapsto> Plain [0x50, 0x4B, 3, 4],
                  ''transcript_PATIENT_001.docx.orig.txt'' \<mapsto> Plain [0x41]],
            stdout = [], stderr = []\<rparr>)) (backup_path ''transcript_PATIENT_001.docx'')
     = Some (Plain [0x50, 0x4B, 3, 4])"
  by (simp add: main_def convert_plaintext_to_docx_def is_valid_docx_def read_bytes_def
      read_text_def utf8_step_def emit_def backup_path_def write_text_def utf8_encode_cp_def
      convert_text_def convert_line_def Let_def rstrip_cr_def py_strip_def py_lstrip_def
      py_rstrip_def py_isspace_def is_linebreak_def add_run_error_def add_t_error_def
      xml_char_def is_surrogate_def print_out_def signature_only_def)

theorem backup_first_write_wins_witness:
  "dir \<lparr>dir = [''transcript_PATIENT_001.docx'' \<mapsto> Plain [0x50, 0x4B],
              ''transcript_PATIENT_001.docx.orig.txt'' \<mapsto> Plain [0x41]],
        stdout = [], stderr = []\<rparr> (backup_path ''transcript_PATIENT_001.docx'')
     = Some (Plain [0x41])
   \<and> backup_path ''transcript_PATIENT_001.docx'' \<notin> set [''transcript_PATIENT_001.docx'']
   \<and> glob_match ''transcript_PATIENT_001.docx''
   \<and> dir (snd (main (\<lambda>d. [0x50, 0x4B]) True [''transcript_PATIENT_001.docx'']
          \<lparr>dir = [''transcript_PATIENT_001.docx'' \<mapsto> Plain [0x50, 0x4B],
                  ''transcript_PATIENT_001.docx.orig.txt'' \<mapsto> Plain [0x41]],
            stdout = [], stderr = []\<rparr>)) (backup_path ''transcript_PATIENT_001.docx'')
     = Some (Plain [0x41])"
proof -
  let ?st = "\<lparr>dir = [''transcript_PATIENT_001.docx'' \<mapsto> Plain [0x50, 0x4B],
              ''transcript_PATIENT_001.docx.orig.txt'' \<mapsto> Plain [0x41]],
        stdout = [], stderr = []\<rparr>"
  have h: "dir ?st (backup_path ''transcript_PATIENT_001.docx'') = Some (Plain [0x41])"
    by (simp add: backup_path_def)
  have g: "\<forall>f \<in> set [''transcript_PATIENT_001.docx'']. glob_match f"
    by (simp add: glob_match_def)
  have g': "glob_match ''transcript_PATIENT_001.docx''"
    by (simp add: glob_match_def)
  have n: "backup_path ''transcript_PATIENT_001.docx'' \<notin> set [''transcript_PATIENT_001.docx'']"
    by (simp add: backup_path_def)
  from backup_first_write_wins [OF h, where fs = "[''transcript_PATIENT_001.docx'']"
      and save = "\<lambda>d. [0x50, 0x4B]" and force = True] g
  have "dir (snd (main (\<lambda>d. [0x50, 0x4B]) True [''transcript_PATIENT_001.docx''] ?st))
          (backup_path ''transcript_PATIENT_001.docx'') = Some (Plain [0x41])"
    by blast
  with h g' n show ?thesis by blast
qed

text \<open>
  C6. A source file whose first two bytes are \<open>PK\<close>, converted with the force flag unset:
  the call returns \<open>False\<close>, no file of the directory is written, and (when verbose, as
  in every call of \<open>main\<close>) the line \<open>SKIP (already valid): <name>\<close> is printed.
\<close>

theorem valid_container_skipped:
  assumes "dir st src = Some (Plain bs)" and "take 2 bs = [0x50, 0x4B]"
  shows "convert_plaintext_to_docx save src False verbose st
           = (Inr False, if verbose then print_out (''SKIP (already valid): '' @ src) st else st)
       \<and> dir (snd (convert_plaintext_to_docx save src False verbose st)) = dir st
       \<and> stdout (snd (convert_plaintext_to_docx save src False True st))
           = stdout st @ [''SKIP (already valid): '' @ src]"
  using assms
  by (simp add: convert_plaintext_to_docx_def is_valid_docx_def read_bytes_def print_out_def)

theorem valid_container_skipped_witness:
  "dir \<lparr>dir = [''transcript_PATIENT_001.docx'' \<mapsto> Plain [0x50, 0x4B, 3, 4]],
        stdout = [], stderr = []\<rparr> ''transcript_PATIENT_001.docx''
     = Some (Plain [0x50, 0x4B, 3, 4])
   \<and> take 2 [0x50, 0x4B, 3, 4 :: byte] = [0x50, 0x4B]
   \<and> convert_plaintext_to_docx (\<lambda>d. [0x50, 0x4B]) ''transcript_PATIENT_001.docx'' False True
        \<lparr>dir = [''transcript_PATIENT_001.docx'' \<mapsto> Plain [0x50, 0x4B, 3, 4]],
          stdout = [], stderr = []\<rparr>
     = (Inr False,
        \<lparr>dir = [''transcript_PATIENT_001.docx'' \<mapsto> Plain [0x50, 0x4B, 3, 4]],
          stdout = [''SKIP (already valid): transcript_PATIENT_001.docx''], stderr = []\<rparr>)"
proof -
  let ?st = "\<lparr>dir = [''transcript_PATIENT_001.docx'' \<mapsto> Plain [0x50, 0x4B, 3, 4]],
        stdout = [], stderr = []\<rparr>"
  have h1: "dir ?st ''transcript_PATIENT_001.docx'' = Some (Plain [0x50, 0x4B, 3, 4])"
    by simp
  have h2: "take 2 [0x50, 0x4B, 3, 4 :: byte] = [0x50, 0x4B]" by simp
  from valid_container_skipped [OF h1 h2, where save = "\<lambda>d. [0x50, 0x4B]" and verbose = True]
  have "convert_plaintext_to_docx (\<lambda>d. [0x50, 0x4B]) ''transcript_PATIENT_001.docx'' False True ?st
     = (Inr False, print_out (''SKIP (already valid): '' @ ''transcript_PATIENT_001.docx'') ?st)"
    by simp
  with h1 h2 show ?thesis by (simp add: print_out_def)
qed

text \<open>
  C10. \<open>is_valid_docx\<close> always returns a truth value, never an exception. For a source
  that cannot be read (it is missing, or opening or reading it fails) it returns \<open>False\<close>,
  so the file is not skipped as already valid: the conversion goes on to read the text,
  where the \<open>OSError\<close> is not caught and leaves the function, nothing written or printed.
\<close>

theorem is_valid_docx_never_raises:
  "(\<exists>b. is_valid_docx (dir st) src = Inr b)
   \<and> ((dir st src = None \<or> dir st src = Some Unreadable) \<longrightarrow>
        is_valid_docx (dir st) src = Inr False
        \<and> convert_plaintext_to_docx save src force verbose st = (Inl OSError, st))"
  by (auto simp: convert_plaintext_to_docx_def is_valid_docx_def read_bytes_def read_text_def
      split: option.splits fentry.splits)

theorem is_valid_docx_never_raises_witness:
  "dir \<lparr>dir = [''transcript_PATIENT_001.docx'' \<mapsto> Unreadable], stdout = [], stderr = []\<rparr>
       ''transcript_PATIENT_001.docx'' = Some Unreadable
   \<and> is_valid_docx [''transcript_PATIENT_001.docx'' \<mapsto> Unreadable]
        ''transcript_PATIENT_001.docx'' = Inr False
   \<and> convert_plaintext_to_docx (\<lambda>d. [0x50, 0x4B]) ''transcript_PATIENT_001.docx'' False True
        \<lparr>dir = [''transcript_PATIENT_001.docx'' \<mapsto> Unreadable], stdout = [], stderr = []\<rparr>
     = (Inl OSError,
        \<lparr>dir = [''transcript_PATIENT_001.docx'' \<mapsto> Unreadable], stdout = [], stderr = []\<rparr>)"
proof -
  let ?st = "\<lparr>dir = [''transcript_PATIENT_001.docx'' \<mapsto> Unreadable],
              stdout = [], stderr = []\<rparr>"
  have h: "dir ?st ''transcript_PATIENT_001.docx'' = Some Unreadable" by simp
  from is_valid_docx_never_raises [of ?st "''transcript_PATIENT_001.docx''"
      "\<lambda>d. [0x50, 0x4B]" False True] h
  have "is_valid_docx (dir ?st) ''transcript_PATIENT_001.docx'' = Inr False
        \<and> convert_plaintext_to_docx (\<lambda>d. [0x50, 0x4B]) ''transcript_PATIENT_001.docx''
            False True ?st = (Inl OSError, ?st)"
    by blast
  with h show ?thesis by simp
qed

text \<open>
  C7. The specification asks that a source whose bytes are not valid UTF-8 be reported
  and left unconverted. The converter reads the text with \<open>errors='replace'\<close>, so its handler for
  \<open>UnicodeDecodeError\<close> is never reached: the two bytes \<open>FF 41\<close> are not valid UTF-8, and
  the file holding them is decoded to U+FFFD followed by \<open>A\<close>, backed up in that form,
  converted, and reported as converted.
\<close>

theorem undecodable_source_is_converted:
  "utf8_decode False [0xFF, 0x41] = None
   \<and> convert_plaintext_to_docx save ''transcript_PATIENT_001.docx'' False True
       \<lparr>dir = [''transcript_PATIENT_001.docx'' \<mapsto> Plain [0xFF, 0x41]], stdout = [], stderr = []\<rparr>
     = (Inr True,
        \<lparr>dir = [''transcript_PATIENT_001.docx'' \<mapsto> Plain [0xFF, 0x41],
                ''transcript_PATIENT_001.docx.orig.txt'' \<mapsto> Plain [0xEF, 0xBF, 0xBD, 0x41],
                ''transcript_PATIENT_001.docx''
                   \<mapsto> Plain (save [\<lparr>ptext = [0xFFFD, 0x41],
                                       pruns = [\<lparr>rtext = [0xFFFD, 0x41], rbold = None\<rparr>]\<rparr>])],
         stdout = [''Converted -> transcript_PATIENT_001.docx''], stderr = []\<rparr>)"
  by (simp add: convert_plaintext_to_docx_def is_valid_docx_def read_bytes_def read_text_def
      utf8_step_def emit_def malformed_def backup_path_def write_text_def utf8_encode_cp_def
      convert_text_def convert_line_def Let_def rstrip_cr_def py_strip_def
      py_lstrip_def py_rstrip_def py_isspace_def is_linebreak_def add_run_error_def
      add_t_error_def xml_char_def is_surrogate_def print_out_def)

text \<open>
  A source whose line holds a character XML cannot carry: the backup is written, then
  \<open>add_run\<close> raises; the source keeps its bytes and nothing is printed.
\<close>

lemma conversion_raises_after_backup:
  "convert_plaintext_to_docx save ''transcript_PATIENT_001.docx'' False True
       \<lparr>dir = [''transcript_PATIENT_001.docx'' \<mapsto> Plain [0x61, 0x01, 0x62]],
        stdout = [], stderr = []\<rparr>
     = (Inl ValueError,
        \<lparr>dir = [''transcript_PATIENT_001.docx'' \<mapsto> Plain [0x61, 0x01, 0x62],
                ''transcript_PATIENT_001.docx.orig.txt'' \<mapsto> Plain [0x61, 0x01, 0x62]],
         stdout = [], stderr = []\<rparr>)"
  by (simp add: convert_plaintext_to_docx_def is_valid_docx_def read_bytes_def read_text_def
      utf8_step_def emit_def malformed_def backup_path_def write_text_def utf8_encode_cp_def
      convert_text_def convert_line_def Let_def rstrip_cr_def py_strip_def
      py_lstrip_def py_rstrip_def py_isspace_def is_linebreak_def add_run_error_def
      add_t_error_def xml_char_def is_surrogate_def)

section \<open>The aggregator: discovery\<close>

lemma length3: "length xs = 3 \<Longrightarrow> \<exists>a b c. xs = [a, b, c]"
proof -
  assume "length xs = 3"
  then have "length xs = Suc (Suc (Suc 0))" by simp
  then show ?thesis by (auto simp: length_Suc_conv)
qed

lemma match_fixed_Some:
  assumes "match_fixed s = Some pid"
  shows "\<exists>d1 d2 d3. is_digit d1 \<and> is_digit d2 \<and> is_digit d3
           \<and> pid = ''PATIENT_'' @ [d1, d2, d3] \<and> s = ''transcript_'' @ pid @ ''.docx''"
proof -
  from assms have len: "length s = 27" and pre: "take 19 s = ''transcript_PATIENT_''"
    and dig: "list_all is_digit (take 3 (drop 19 s))" and suf: "drop 22 s = ''.docx''"
    and pid: "pid = take 11 (drop 11 s)"
    by (auto simp: match_fixed_def split: if_splits)
  from len have "length (take 3 (drop 19 s)) = 3" by simp
  then obtain d1 d2 d3 where d: "take 3 (drop 19 s) = [d1, d2, d3]" using length3 by blast
  have "take 3 (drop 19 s) @ drop 3 (drop 19 s) = drop 19 s" by (rule append_take_drop_id)
  then have "take 3 (drop 19 s) @ drop 22 s = drop 19 s" by simp
  then have "take 19 s @ take 3 (drop 19 s) @ drop 22 s = s" by simp
  then have s2: "''transcript_PATIENT_'' @ [d1, d2, d3] @ ''.docx'' = s"
    unfolding pre d suf .
  have "take 11 (drop 11 (''transcript_PATIENT_'' @ [d1, d2, d3] @ ''.docx''))
          = ''PATIENT_'' @ [d1, d2, d3]" by simp
  with pid s2 have p2: "pid = ''PATIENT_'' @ [d1, d2, d3]" by metis
  from dig d have dd: "is_digit d1 \<and> is_digit d2 \<and> is_digit d3" by simp
  have "''transcript_'' @ (''PATIENT_'' @ [d1, d2, d3]) @ ''.docx''
          = ''transcript_PATIENT_'' @ [d1, d2, d3] @ ''.docx''" by simp
  with s2 p2 have "s = ''transcript_'' @ pid @ ''.docx''" by metis
  with p2 dd show ?thesis by blast
qed

lemma match_fixed_intro:
  assumes "is_digit d1" "is_digit d2" "is_digit d3"
  shows "match_fixed (''transcript_PATIENT_'' @ [d1, d2, d3] @ ''.docx'') = Some (''PATIENT_'' @ [d1, d2, d3])"
  using assms by (simp add: match_fixed_def)

lemma glob_last: "glob_match p \<Longrightarrow> last p = CHR ''x''"
proof -
  assume g: "glob_match p"
  then have d: "drop (length p - 5) p = ''.docx''" and l: "24 \<le> length p"
    by (simp_all add: glob_match_def)
  from l have "p \<noteq> []" by auto
  have "last p = last (drop (length p - 5) p)" using l by (simp add: last_drop)
  with d show ?thesis by simp
qed

lemma pattern_search_glob:
  assumes "glob_match p"
  shows "pattern_search p = (if 27 \<le> length p then match_fixed (drop (length p - 27) p) else None)"
  using glob_last [OF assms] by (simp add: pattern_search_def Let_def)

lemma accepted_iff:
  "(glob_match p \<and> pattern_search p = Some pid) \<longleftrightarrow>
     (\<exists>pre d1 d2 d3. is_digit d1 \<and> is_digit d2 \<and> is_digit d3
        \<and> pid = ''PATIENT_'' @ [d1, d2, d3]
        \<and> p = pre @ ''transcript_'' @ pid @ ''.docx''
        \<and> take 19 p = ''transcript_PATIENT_'')"
proof
  assume a: "glob_match p \<and> pattern_search p = Some pid"
  then have g: "glob_match p" and ps: "pattern_search p = Some pid" by auto
  from ps pattern_search_glob [OF g] have l: "27 \<le> length p"
    and m: "match_fixed (drop (length p - 27) p) = Some pid"
    by (auto split: if_splits)
  from match_fixed_Some [OF m] obtain d1 d2 d3 where
    d: "is_digit d1" "is_digit d2" "is_digit d3" "pid = ''PATIENT_'' @ [d1, d2, d3]"
    and s: "drop (length p - 27) p = ''transcript_'' @ pid @ ''.docx''" by blast
  have "p = take (length p - 27) p @ drop (length p - 27) p" by simp
  with s have "p = take (length p - 27) p @ ''transcript_'' @ pid @ ''.docx''" by simp
  moreover from g have "take 19 p = ''transcript_PATIENT_''" by (simp add: glob_match_def)
  ultimately show "\<exists>pre d1 d2 d3. is_digit d1 \<and> is_digit d2 \<and> is_digit d3
        \<and> pid = ''PATIENT_'' @ [d1, d2, d3]
        \<and> p = pre @ ''transcript_'' @ pid @ ''.docx''
        \<and> take 19 p = ''transcript_PATIENT_''" using d by blast
next
  assume "\<exists>pre d1 d2 d3. is_digit d1 \<and> is_digit d2 \<and> is_digit d3
        \<and> pid = ''PATIENT_'' @ [d1, d2, d3]
        \<and> p = pre @ ''transcript_'' @ pid @ ''.docx''
        \<and> take 19 p = ''transcript_PATIENT_''"
  then obtain pre d1 d2 d3 where d: "is_digit d1" "is_digit d2" "is_digit d3"
    and pid: "pid = ''PATIENT_'' @ [d1, d2, d3]"
    and p: "p = pre @ ''transcript_'' @ pid @ ''.docx''"
    and t: "take 19 p = ''transcript_PATIENT_''" by blast
  from p pid have p': "p = pre @ (''transcript_PATIENT_'' @ [d1, d2, d3] @ ''.docx'')" by simp
  then have len: "length p = length pre + 27" by simp
  from p' have dr: "drop (length p - 27) p = ''transcript_PATIENT_'' @ [d1, d2, d3] @ ''.docx''"
    by (simp add: len)
  have "drop (length p - 5) p = ''.docx''" using p' by (simp add: len)
  with t len have g: "glob_match p" by (simp add: glob_match_def)
  from match_fixed_intro [OF d] dr pid
  have "match_fixed (drop (length p - 27) p) = Some pid" by simp
  with pattern_search_glob [OF g] len have "pattern_search p = Some pid" by simp
  with g show "glob_match p \<and> pattern_search p = Some pid" by simp
qed

lemma matching_files_iff:
  "(pid, p) \<in> set (matching_files names) \<longleftrightarrow>
     p \<in> set names \<and> glob_match p \<and> pattern_search p = Some pid"
  by (force simp: matching_files_def List.map_filter_def image_iff)

lemma digit_not_underscore: "is_digit d \<Longrightarrow> d \<noteq> CHR ''_''"
  by (auto simp: is_digit_def)

lemma numeric_key_digits:
  assumes "is_digit d1" "is_digit d2" "is_digit d3"
  shows "numeric_key (''PATIENT_'' @ [d1, d2, d3])
           = Inr (100 * (of_char d1 - 48) + 10 * (of_char d2 - 48) + (of_char d3 - 48))"
  using assms
  by (simp add: numeric_key_def py_int_def digit_not_underscore)

lemma numeric_key_accepted:
  assumes "(pid, p) \<in> set (matching_files names)"
  shows "\<exists>n. numeric_key pid = Inr n"
proof -
  from assms have "glob_match p \<and> pattern_search p = Some pid"
    by (simp add: matching_files_iff)
  then obtain d1 d2 d3 where "is_digit d1" "is_digit d2" "is_digit d3"
    "pid = ''PATIENT_'' @ [d1, d2, d3]"
    unfolding accepted_iff by blast
  then show ?thesis using numeric_key_digits by blast
qed

lemma with_keys_total:
  assumes "\<forall>t \<in> set ts. \<exists>n. numeric_key (fst t) = Inr n"
  shows "\<exists>kts. with_keys ts = Inr kts \<and> map snd kts = ts
           \<and> (\<forall>kt \<in> set kts. numeric_key (fst (snd kt)) = Inr (fst kt))"
  using assms
proof (induction ts)
  case Nil
  then show ?case by simp
next
  case (Cons t ts)
  then obtain n where n: "numeric_key (fst t) = Inr n" by auto
  from Cons obtain kts where k: "with_keys ts = Inr kts" "map snd kts = ts"
    "\<forall>kt \<in> set kts. numeric_key (fst (snd kt)) = Inr (fst kt)" by auto
  with n have "with_keys (t # ts) = Inr ((n, t) # kts)" by simp
  with n k show ?case by auto
qed

lemma iter_transcript_paths_sorted:
  "\<exists>ts k. iter_transcript_paths names = Inr ts
     \<and> set ts = set (matching_files names)
     \<and> length ts = length (matching_files names)
     \<and> sorted (map k ts)
     \<and> (\<forall>t \<in> set ts. numeric_key (fst t) = Inr (k t))"
proof -
  let ?mf = "matching_files names"
  have "\<forall>t \<in> set ?mf. \<exists>n. numeric_key (fst t) = Inr n"
    using numeric_key_accepted by (metis prod.collapse)
  from with_keys_total [OF this] obtain kts where
    wk: "with_keys ?mf = Inr kts" and ms: "map snd kts = ?mf"
    and ks: "\<forall>kt \<in> set kts. numeric_key (fst (snd kt)) = Inr (fst kt)" by blast
  let ?srt = "sort_key fst kts"
  let ?ts = "map snd ?srt"
  define k :: "string \<times> string \<Rightarrow> nat" where
    "k t = (case numeric_key (fst t) of Inr n \<Rightarrow> n | Inl e \<Rightarrow> 0)" for t
  have it: "iter_transcript_paths names = Inr ?ts"
    by (simp add: iter_transcript_paths_def wk)
  have "set ?ts = snd ` set kts" by simp
  also have "\<dots> = set (map snd kts)" by simp
  finally have st: "set ?ts = set ?mf" using ms by simp
  have "length ?ts = length (map snd kts)" by simp
  then have ln: "length ?ts = length ?mf" using ms by simp
  have fk: "\<forall>kt \<in> set ?srt. fst kt = k (snd kt)"
    using ks by (simp add: k_def)
  have "map (k \<circ> snd) ?srt = map fst ?srt"
  proof (rule map_cong [OF refl])
    fix kt assume "kt \<in> set ?srt"
    with fk show "(k \<circ> snd) kt = fst kt" by simp
  qed
  then have e: "map k ?ts = map fst ?srt" by (simp only: map_map)
  have so: "sorted (map k ?ts)" unfolding e by (rule sorted_sort_key)
  have kk: "\<forall>t \<in> set ?ts. numeric_key (fst t) = Inr (k t)"
  proof
    fix t assume "t \<in> set ?ts"
    then obtain kt where "kt \<in> set kts" "t = snd kt" by auto
    with ks fk show "numeric_key (fst t) = Inr (k t)" by simp
  qed
  from it st ln so kk show ?thesis by blast
qed

lemma sorted_two_split:
  fixes k :: "'a \<Rightarrow> nat"
  assumes "sorted (map k ts)" and "x \<in> set ts" and "y \<in> set ts" and "k x < k y"
  shows "\<exists>A B C. ts = A @ x # B @ y # C"
proof -
  from assms(3) obtain P R where ts: "ts = P @ y # R" by (meson split_list)
  have "x \<notin> set R"
  proof
    assume "x \<in> set R"
    with assms(1) ts have "k y \<le> k x" by (auto simp: sorted_append)
    with assms(4) show False by simp
  qed
  moreover from assms(4) have "x \<noteq> y" by auto
  ultimately have "x \<in> set P" using assms(2) ts by auto
  then obtain A B where "P = A @ x # B" by (meson split_list)
  with ts have "ts = A @ x # B @ y # R" by simp
  then show ?thesis by blast
qed

lemma build_entries_append:
  "build_entries env (xs @ ys) = Inr es \<Longrightarrow>
     \<exists>e1 e2. build_entries env xs = Inr e1 \<and> build_entries env ys = Inr e2 \<and> es = e1 @ e2"
proof (induction xs arbitrary: es)
  case Nil
  then show ?case by simp
next
  case (Cons t xs)
  obtain pid path where t: "t = (pid, path)" by (cases t)
  from Cons.prems t obtain c where c: "acquire env path = Inr c"
    by (auto split: sum.splits)
  from Cons.prems t c obtain es' where r: "build_entries env (xs @ ys) = Inr es'"
    and es: "es = make_entry pid c # es'" by (auto split: sum.splits)
  from Cons.IH [OF r] obtain e1 e2 where "build_entries env xs = Inr e1"
    "build_entries env ys = Inr e2" "es' = e1 @ e2" by blast
  with t c es show ?case by simp
qed

lemma build_entries_Cons:
  "build_entries env ((pid, path) # ys) = Inr es \<Longrightarrow>
     \<exists>c e2. acquire env path = Inr c \<and> build_entries env ys = Inr e2
        \<and> es = make_entry pid c # e2"
  by (auto split: sum.splits)

lemma py_join_newline:
  "es \<noteq> [] \<Longrightarrow> py_join [10 :: nat] es @ [10] = concat (map (\<lambda>e. e @ [10]) es)"
  by (induction "[10 :: nat]" es rule: py_join.induct) auto

section \<open>The aggregator: order of the blocks (C1) and the missing library (C8)\<close>

text \<open>
  C1. When the aggregator writes its file: for two discovered transcripts whose numbers
  are \<open>n1 < n2\<close>, the sorted list of transcripts has the first before the second, and the
  text written is the blocks of the transcripts before the first, the block of the first,
  the blocks between them, the block of the second, the blocks after it and the footer,
  each block followed by a line feed. So the block of the smaller number ends before the
  block of the larger one begins.
\<close>

theorem blocks_in_numeric_order:
  assumes "build_aggregate env = Wrote txt"
    and "(pid1, p1) \<in> set (matching_files (listing env))"
    and "(pid2, p2) \<in> set (matching_files (listing env))"
    and "numeric_key pid1 = Inr n1" and "numeric_key pid2 = Inr n2" and "n1 < n2"
  shows "\<exists>ts A B C c1 c2 eA eB eC.
           iter_transcript_paths (listing env) = Inr ts
         \<and> ts = A @ (pid1, p1) # B @ (pid2, p2) # C
         \<and> acquire env p1 = Inr c1 \<and> acquire env p2 = Inr c2
         \<and> build_entries env A = Inr eA \<and> build_entries env B = Inr eB
         \<and> build_entries env C = Inr eC
         \<and> txt = concat (map (\<lambda>e. e @ [10]) eA) @ make_entry pid1 c1 @ [10]
                 @ concat (map (\<lambda>e. e @ [10]) eB) @ make_entry pid2 c2 @ [10]
                 @ concat (map (\<lambda>e. e @ [10]) eC) @ footer env ts"
proof -
  from iter_transcript_paths_sorted [of "listing env"] obtain ts k where
    it: "iter_transcript_paths (listing env) = Inr ts"
    and st: "set ts = set (matching_files (listing env))"
    and so: "sorted (map k ts)"
    and kk: "\<forall>t \<in> set ts. numeric_key (fst t) = Inr (k t)" by blast
  from st assms(2,3) have m1: "(pid1, p1) \<in> set ts" and m2: "(pid2, p2) \<in> set ts" by auto
  from kk m1 assms(4) have "k (pid1, p1) = n1" by fastforce
  moreover from kk m2 assms(5) have "k (pid2, p2) = n2" by fastforce
  ultimately have "k (pid1, p1) < k (pid2, p2)" using assms(6) by simp
  from sorted_two_split [OF so m1 m2 this] obtain A B C where
    ts: "ts = A @ (pid1, p1) # B @ (pid2, p2) # C" by blast
  from m1 have ne: "ts \<noteq> []" by auto
  from assms(1) it ne obtain es where be: "build_entries env ts = Inr es"
    and tx: "txt = py_join [10] es @ [10] @ footer env ts"
    by (auto simp: build_aggregate_def split: sum.splits)
  from be ts have "build_entries env (A @ ((pid1, p1) # B @ (pid2, p2) # C)) = Inr es" by simp
  from build_entries_append [OF this] obtain eA r1 where
    eA: "build_entries env A = Inr eA"
    and r1: "build_entries env ((pid1, p1) # B @ (pid2, p2) # C) = Inr r1"
    and es1: "es = eA @ r1" by blast
  from build_entries_Cons [OF r1] obtain c1 r2 where
    c1: "acquire env p1 = Inr c1"
    and r2: "build_entries env (B @ ((pid2, p2) # C)) = Inr r2"
    and es2: "r1 = make_entry pid1 c1 # r2" by auto
  from build_entries_append [OF r2] obtain eB r3 where
    eB: "build_entries env B = Inr eB"
    and r3: "build_entries env ((pid2, p2) # C) = Inr r3"
    and es3: "r2 = eB @ r3" by blast
  from build_entries_Cons [OF r3] obtain c2 eC where
    c2: "acquire env p2 = Inr c2"
    and eC: "build_entries env C = Inr eC"
    and es4: "r3 = make_entry pid2 c2 # eC" by blast
  from es1 es2 es3 es4 have es: "es = eA @ make_entry pid1 c1 # eB @ make_entry pid2 c2 # eC"
    by simp
  then have "es \<noteq> []" by simp
  from py_join_newline [OF this] tx
  have "txt = concat (map (\<lambda>e. e @ [10]) es) @ footer env ts" by simp
  with es have "txt = concat (map (\<lambda>e. e @ [10]) eA) @ make_entry pid1 c1 @ [10]
                 @ concat (map (\<lambda>e. e @ [10]) eB) @ make_entry pid2 c2 @ [10]
                 @ concat (map (\<lambda>e. e @ [10]) eC) @ footer env ts" by simp
  with it ts c1 c2 eA eB eC show ?thesis by blast
qed

lemma build_entries_unavailable:
  assumes "\<not> document_available env"
    and "\<exists>t \<in> set ts. read_from_backup env (backup_path (snd t)) = None"
  shows "build_entries env ts = Inl RuntimeError"
  using assms(2)
proof (induction ts)
  case Nil
  then show ?case by simp
next
  case (Cons t ts)
  obtain pid path where t: "t = (pid, path)" by (cases t)
  show ?case
  proof (cases "read_from_backup env (backup_path path)")
    case None
    with assms(1) t show ?thesis
      by (simp add: acquire_def extract_text_from_docx_def)
  next
    case (Some c)
    with Cons.prems t have "\<exists>t \<in> set ts. read_from_backup env (backup_path (snd t)) = None"
      by auto
    with Cons.IH have "build_entries env ts = Inl RuntimeError" by simp
    with Some t show ?thesis by (simp add: acquire_def)
  qed
qed

text \<open>
  C8. For a discovered transcript without a usable backup sidecar, when the document
  library could not be imported: the extraction raises \<open>RuntimeError\<close>, nothing catches
  it on the way, and it leaves \<open>build_aggregate\<close>, which writes nothing.
\<close>

theorem missing_capability_is_fatal:
  assumes "(pid, p) \<in> set (matching_files (listing env))"
    and "read_from_backup env (backup_path p) = None"
    and "\<not> document_available env"
  shows "extract_text_from_docx env p = Inl RuntimeError
       \<and> acquire env p = Inl RuntimeError
       \<and> build_aggregate env = Failed RuntimeError"
proof -
  from iter_transcript_paths_sorted [of "listing env"] obtain ts where
    it: "iter_transcript_paths (listing env) = Inr ts"
    and st: "set ts = set (matching_files (listing env))" by blast
  from st assms(1) have m: "(pid, p) \<in> set ts" by simp
  then have ne: "ts \<noteq> []" by auto
  from m assms(2) have "\<exists>t \<in> set ts. read_from_backup env (backup_path (snd t)) = None"
    by force
  with assms(3) have "build_entries env ts = Inl RuntimeError"
    by (rule build_entries_unavailable)
  with it ne have "build_aggregate env = Failed RuntimeError"
    by (simp add: build_aggregate_def)
  moreover from assms(2,3) have "acquire env p = Inl RuntimeError"
    by (simp add: acquire_def extract_text_from_docx_def)
  moreover from assms(3) have "extract_text_from_docx env p = Inl RuntimeError"
    by (simp add: extract_text_from_docx_def)
  ultimately show ?thesis by simp
qed

section \<open>The aggregator: header normalisation (C3)\<close>

lemma splitlines_first_line:
  assumes "\<forall>c \<in> set h. \<not> is_linebreak c"
  shows "splitlines (h @ 10 # rest) = h # splitlines rest"
  using assms
proof (induction h)
  case Nil
  show ?case by (cases rest) (simp_all add: is_linebreak_def)
next
  case (Cons c h)
  then have ih: "splitlines (h @ 10 # rest) = h # splitlines rest"
    and nb: "\<not> is_linebreak c" by simp_all
  obtain d ds where e: "h @ 10 # rest = d # ds" by (cases "h @ 10 # rest") auto
  from nb have "c \<noteq> 13" by (auto simp: is_linebreak_def)
  with nb have "splitlines (c # d # ds)
      = (case splitlines (d # ds) of [] \<Rightarrow> [[c]] | l # ls \<Rightarrow> (c # l) # ls)" by simp
  with e ih show ?case by simp
qed

lemma header_line_no_break:
  assumes "is_digit d1" "is_digit d2" "is_digit d3"
  shows "\<forall>c \<in> set (header_line (''PATIENT_'' @ [d1, d2, d3])). \<not> is_linebreak c"
  using assms by (auto simp: header_line_def u_def is_linebreak_def is_digit_def)

lemma normalize_header_present:
  assumes "\<forall>c \<in> set (header_line pid). \<not> is_linebreak c"
  shows "splitlines (header_line pid @ [10, 10] @ body)
           = header_line pid # [] # splitlines body"
proof -
  have "splitlines (header_line pid @ 10 # ([] @ 10 # body))
          = header_line pid # splitlines ([] @ 10 # body)"
    using assms by (rule splitlines_first_line)
  also have "splitlines ([] @ 10 # body) = [] # splitlines body"
    by (rule splitlines_first_line) simp
  finally show ?thesis by simp
qed

text \<open>
  C3. For the identifier of a discovered transcript and any acquired text: if the line
  \<open>====TRANSCRIPT: <identifier>====\<close> is among the first three lines of the text, the
  text is left as it is; otherwise the result is that line, an empty line, and the text
  (stripped, with a line feed at its end), so that the delimiter is the first line and a
  blank line follows it. Either way the delimiter is among the first three lines of the
  result, and normalising the result again changes nothing.
\<close>

theorem normalize_header_idempotent:
  assumes "(pid, p) \<in> set (matching_files names)"
  shows "(header_line pid \<in> set (take 3 (splitlines content)) \<longrightarrow>
            normalize_header pid content = content)
       \<and> (header_line pid \<notin> set (take 3 (splitlines content)) \<longrightarrow>
            normalize_header pid content
              = header_line pid @ [10] @ [10] @ py_strip content @ [10]
            \<and> take 2 (splitlines (normalize_header pid content)) = [header_line pid, []])
       \<and> header_line pid \<in> set (take 3 (splitlines (normalize_header pid content)))
       \<and> normalize_header pid (normalize_header pid content) = normalize_header pid content"
proof -
  from assms have "glob_match p \<and> pattern_search p = Some pid"
    by (simp add: matching_files_iff)
  then obtain d1 d2 d3 where "is_digit d1" "is_digit d2" "is_digit d3"
    "pid = ''PATIENT_'' @ [d1, d2, d3]"
    unfolding accepted_iff by blast
  then have nb: "\<forall>c \<in> set (header_line pid). \<not> is_linebreak c"
    using header_line_no_break by simp
  let ?h = "header_line pid"
  have A: "?h \<in> set (take 3 (splitlines content)) \<longrightarrow> normalize_header pid content = content"
    by (simp add: normalize_header_def)
  have sp: "splitlines (?h @ [10, 10] @ py_strip content @ [10])
              = ?h # [] # splitlines (py_strip content @ [10])"
    using nb by (rule normalize_header_present)
  have B: "?h \<notin> set (take 3 (splitlines content)) \<longrightarrow>
            normalize_header pid content = ?h @ [10] @ [10] @ py_strip content @ [10]
            \<and> take 2 (splitlines (normalize_header pid content)) = [?h, []]"
    using sp by (simp add: normalize_header_def)
  have C: "?h \<in> set (take 3 (splitlines (normalize_header pid content)))"
  proof (cases "?h \<in> set (take 3 (splitlines content))")
    case True
    then show ?thesis by (simp add: normalize_header_def)
  next
    case False
    then have "normalize_header pid content = ?h @ [10, 10] @ py_strip content @ [10]"
      by (simp add: normalize_header_def)
    with sp show ?thesis by simp
  qed
  from C have D: "normalize_header pid (normalize_header pid content)
                    = normalize_header pid content"
    by (simp add: normalize_header_def [of pid "normalize_header pid content"])
  from A B C D show ?thesis by blast
qed

section \<open>The aggregator on the two small directories\<close>

lemma example_matching:
  "matching_files [''transcript_PATIENT_010.docx'', ''notes.txt'', ''transcript_PATIENT_002.docx'']
     = [(''PATIENT_010'', ''transcript_PATIENT_010.docx''),
        (''PATIENT_002'', ''transcript_PATIENT_002.docx'')]"
  by code_simp

lemma example_sorted:
  "iter_transcript_paths
       [''transcript_PATIENT_010.docx'', ''notes.txt'', ''transcript_PATIENT_002.docx'']
     = Inr [(''PATIENT_002'', ''transcript_PATIENT_002.docx''),
            (''PATIENT_010'', ''transcript_PATIENT_010.docx'')]"
  by code_simp

lemma example_keys: "numeric_key ''PATIENT_002'' = Inr 2" "numeric_key ''PATIENT_010'' = Inr 10"
  by code_simp+

theorem blocks_in_numeric_order_witness:
  "build_aggregate two_backups_env
     = Wrote (make_entry ''PATIENT_002'' [65] @ [10] @ make_entry ''PATIENT_010'' [66] @ [10]
              @ footer two_backups_env
                  [(''PATIENT_002'', ''transcript_PATIENT_002.docx''),
                   (''PATIENT_010'', ''transcript_PATIENT_010.docx'')])
   \<and> (''PATIENT_002'', ''transcript_PATIENT_002.docx'')
        \<in> set (matching_files (listing two_backups_env))
   \<and> (''PATIENT_010'', ''transcript_PATIENT_010.docx'')
        \<in> set (matching_files (listing two_backups_env))
   \<and> numeric_key ''PATIENT_002'' = Inr 2 \<and> numeric_key ''PATIENT_010'' = Inr 10
   \<and> (2 :: nat) < 10
   \<and> (\<exists>ts A B C c1 c2 eA eB eC.
           iter_transcript_paths (listing two_backups_env) = Inr ts
         \<and> ts = A @ (''PATIENT_002'', ''transcript_PATIENT_002.docx'')
                 # B @ (''PATIENT_010'', ''transcript_PATIENT_010.docx'') # C
         \<and> acquire two_backups_env ''transcript_PATIENT_002.docx'' = Inr c1
         \<and> acquire two_backups_env ''transcript_PATIENT_010.docx'' = Inr c2
         \<and> build_entries two_backups_env A = Inr eA
         \<and> build_entries two_backups_env B = Inr eB
         \<and> build_entries two_backups_env C = Inr eC
         \<and> make_entry ''PATIENT_002'' [65] @ [10] @ make_entry ''PATIENT_010'' [66] @ [10]
              @ footer two_backups_env
                  [(''PATIENT_002'', ''transcript_PATIENT_002.docx''),
                   (''PATIENT_010'', ''transcript_PATIENT_010.docx'')]
             = concat (map (\<lambda>e. e @ [10]) eA) @ make_entry ''PATIENT_002'' c1 @ [10]
                 @ concat (map (\<lambda>e. e @ [10]) eB) @ make_entry ''PATIENT_010'' c2 @ [10]
                 @ concat (map (\<lambda>e. e @ [10]) eC) @ footer two_backups_env ts)"
proof -
  let ?E = two_backups_env
  have l: "listing ?E
      = [''transcript_PATIENT_010.docx'', ''notes.txt'', ''transcript_PATIENT_002.docx'']"
    by (simp add: two_backups_env_def)
  have a1: "acquire ?E ''transcript_PATIENT_002.docx'' = Inr [65]"
    by (simp add: two_backups_env_def acquire_def read_from_backup_def read_text_def
        read_bytes_def backup_path_def utf8_step_def emit_def)
  have a2: "acquire ?E ''transcript_PATIENT_010.docx'' = Inr [66]"
    by (simp add: two_backups_env_def acquire_def read_from_backup_def read_text_def
        read_bytes_def backup_path_def utf8_step_def emit_def)
  have h1: "build_aggregate ?E
     = Wrote (make_entry ''PATIENT_002'' [65] @ [10] @ make_entry ''PATIENT_010'' [66] @ [10]
              @ footer ?E [(''PATIENT_002'', ''transcript_PATIENT_002.docx''),
                           (''PATIENT_010'', ''transcript_PATIENT_010.docx'')])"
    by (simp add: build_aggregate_def l example_sorted a1 a2)
  have h2: "(''PATIENT_002'', ''transcript_PATIENT_002.docx'') \<in> set (matching_files (listing ?E))"
    by (simp add: l example_matching)
  have h3: "(''PATIENT_010'', ''transcript_PATIENT_010.docx'') \<in> set (matching_files (listing ?E))"
    by (simp add: l example_matching)
  have h6: "(2 :: nat) < 10" by simp
  note r = blocks_in_numeric_order [OF h1 h2 h3 example_keys(1) example_keys(2) h6]
  from h1 h2 h3 example_keys h6 r show ?thesis by blast
qed

theorem missing_capability_is_fatal_witness:
  "(''PATIENT_002'', ''transcript_PATIENT_002.docx'') \<in> set (matching_files (listing no_backup_env))
   \<and> read_from_backup no_backup_env (backup_path ''transcript_PATIENT_002.docx'') = None
   \<and> \<not> document_available no_backup_env
   \<and> build_aggregate no_backup_env = Failed RuntimeError"
proof -
  have h1: "(''PATIENT_002'', ''transcript_PATIENT_002.docx'')
              \<in> set (matching_files (listing no_backup_env))"
    by (simp add: no_backup_env_def example_matching)
  have h2: "read_from_backup no_backup_env (backup_path ''transcript_PATIENT_002.docx'') = None"
    by (simp add: no_backup_env_def read_from_backup_def)
  have h3: "\<not> document_available no_backup_env" by (simp add: no_backup_env_def)
  from missing_capability_is_fatal [OF h1 h2 h3] h1 h2 h3 show ?thesis by blast
qed

theorem normalize_header_idempotent_witness:
  "(''PATIENT_002'', ''transcript_PATIENT_002.docx'')
      \<in> set (matching_files [''transcript_PATIENT_002.docx''])
   \<and> header_line ''PATIENT_002'' \<notin> set (take 3 (splitlines (u ''A'')))
   \<and> normalize_header ''PATIENT_002'' (u ''A'')
        = u ''====TRANSCRIPT: PATIENT_002===='' @ [10, 10] @ u ''A'' @ [10]
   \<and> header_line ''PATIENT_002''
        \<in> set (take 3 (splitlines (u ''====TRANSCRIPT: PATIENT_002===='' @ [10, 10] @ u ''A'' @ [10])))
   \<and> normalize_header ''PATIENT_002'' (u ''====TRANSCRIPT: PATIENT_002===='' @ [10, 10] @ u ''A'' @ [10])
        = u ''====TRANSCRIPT: PATIENT_002===='' @ [10, 10] @ u ''A'' @ [10]"
proof -
  have h: "(''PATIENT_002'', ''transcript_PATIENT_002.docx'')
      \<in> set (matching_files [''transcript_PATIENT_002.docx''])"
    by code_simp
  have n: "header_line ''PATIENT_002'' \<notin> set (take 3 (splitlines (u ''A'')))"
    by (simp add: header_line_def u_def is_linebreak_def)
  have s: "py_strip (u ''A'') = u ''A''"
    by (simp add: u_def py_strip_def py_rstrip_def py_lstrip_def py_isspace_def)
  have hl: "header_line ''PATIENT_002'' = u ''====TRANSCRIPT: PATIENT_002===='' "
    by (simp add: header_line_def u_def)
  note r = normalize_header_idempotent [OF h, of "u ''A''"]
  from r n have v: "normalize_header ''PATIENT_002'' (u ''A'')
        = header_line ''PATIENT_002'' @ [10] @ [10] @ py_strip (u ''A'') @ [10]" by blast
  from r have i1: "header_line ''PATIENT_002''
        \<in> set (take 3 (splitlines (normalize_header ''PATIENT_002'' (u ''A''))))" by blast
  from r have i2: "normalize_header ''PATIENT_002'' (normalize_header ''PATIENT_002'' (u ''A''))
        = normalize_header ''PATIENT_002'' (u ''A'')" by blast
  have v': "normalize_header ''PATIENT_002'' (u ''A'')
        = u ''====TRANSCRIPT: PATIENT_002===='' @ [10, 10] @ u ''A'' @ [10]"
    using v by (simp only: s hl append_Cons append_Nil)
  from h n v' i1 i2 show ?thesis by (simp only: v' simp_thms)
qed

section \<open>The aggregator: extraction from a document (C4)\<close>

lemma py_rstrip_empty_iff: "py_rstrip t = [] \<longleftrightarrow> (\<forall>c \<in> set t. py_isspace c)"
proof -
  have "py_rstrip t = [] \<longleftrightarrow> dropWhile py_isspace (rev t) = []"
    by (simp add: py_rstrip_def)
  also have "\<dots> \<longleftrightarrow> (\<forall>c \<in> set (rev t). py_isspace c)"
    by (simp add: dropWhile_eq_Nil_conv)
  finally show ?thesis by simp
qed

lemma py_lstrip_empty_iff: "py_lstrip t = [] \<longleftrightarrow> (\<forall>c \<in> set t. py_isspace c)"
  by (simp add: py_lstrip_def dropWhile_eq_Nil_conv)

lemma py_strip_empty_iff: "py_strip t = [] \<longleftrightarrow> (\<forall>c \<in> set t. py_isspace c)"
proof
  assume "py_strip t = []"
  then have "\<forall>c \<in> set (py_lstrip t). py_isspace c"
    by (simp add: py_strip_def py_rstrip_empty_iff)
  then have "py_lstrip t = []"
    unfolding py_lstrip_def by (metis dropWhile_eq_Nil_conv dropWhile_idem)
  then show "\<forall>c \<in> set t. py_isspace c" by (simp add: py_lstrip_empty_iff)
next
  assume "\<forall>c \<in> set t. py_isspace c"
  then have "py_lstrip t = []" by (simp add: py_lstrip_empty_iff)
  then show "py_strip t = []" by (simp add: py_strip_def py_rstrip_def)
qed

lemma runs_blank_iff:
  "py_rstrip (concat (map rtext rs)) = [] \<longleftrightarrow> (\<forall>r \<in> set rs. py_strip (rtext r) = [])"
  by (auto simp: py_rstrip_empty_iff py_strip_empty_iff)

lemma py_rstrip_subset: "set (py_rstrip t) \<subseteq> set t"
proof -
  have "set (dropWhile py_isspace (rev t)) \<subseteq> set (rev t)"
    by (auto dest: set_dropWhileD)
  then show ?thesis by (simp add: py_rstrip_def)
qed

lemma py_split_single: "sep \<notin> set l \<Longrightarrow> py_split sep l = [l]"
  by (induction l) auto

lemma py_split_append:
  "sep \<notin> set l \<Longrightarrow> py_split sep (l @ sep # rest) = l # py_split sep rest"
  by (induction l) auto

lemma py_split_join:
  assumes "ls \<noteq> []" and "\<forall>l \<in> set ls. sep \<notin> set l"
  shows "py_split sep (py_join [sep] ls) = ls"
  using assms
proof (induction ls rule: induct_list012)
  case 1
  then show ?case by simp
next
  case (2 x)
  then show ?case by (simp add: py_split_single)
next
  case (3 x y zs)
  then have "py_split sep (py_join [sep] (y # zs)) = y # zs" by simp
  moreover from 3 have "sep \<notin> set x" by simp
  ultimately show ?case by (simp add: py_split_append)
qed

lemma extract_line_no_lf:
  assumes "10 \<notin> set (ptext q)"
  shows "10 \<notin> set (extract_line q)"
proof -
  from assms have "10 \<notin> set (py_rstrip (ptext q))" using py_rstrip_subset by blast
  then show ?thesis by (simp add: extract_line_def Let_def u_def)
qed

text \<open>
  C4, as amended. The extraction makes one entry per paragraph, in order, and joins the
  entries with line feeds; when no paragraph text holds a line feed, the entries are
  exactly the lines of the result. A paragraph whose text is empty or white space gives
  the empty line. Otherwise the text, without trailing white space, is put between \<open>**\<close>
  and \<open>**\<close> exactly when the paragraph has at least one run and every run with text that
  is not white space has its bold flag set; if not, it is given unmarked. For a paragraph
  whose text is the concatenation of the texts of its runs, that is: exactly when it has a
  run with text that is not white space and every such run has its bold flag set.
\<close>

theorem extract_line_bold:
  "length (extract_lines doc) = length doc
   \<and> (\<forall>i < length doc. extract_lines doc ! i = extract_line (doc ! i))
   \<and> (document_available env \<and> load_document env path = Inr doc \<longrightarrow>
        extract_text_from_docx env path = Inr (py_join [10] (extract_lines doc)))
   \<and> (doc \<noteq> [] \<and> (\<forall>q \<in> set doc. 10 \<notin> set (ptext q)) \<longrightarrow>
        py_split 10 (py_join [10] (extract_lines doc)) = extract_lines doc)
   \<and> (py_rstrip (ptext p) = [] \<longrightarrow> extract_line p = [])
   \<and> extract_line p =
       (if py_rstrip (ptext p) \<noteq> [] \<and> pruns p \<noteq> []
           \<and> (\<forall>r \<in> set (pruns p). py_strip (rtext r) \<noteq> [] \<longrightarrow> rbold r = Some True)
        then u ''**'' @ py_rstrip (ptext p) @ u ''**''
        else py_rstrip (ptext p))
   \<and> (ptext p = concat (map rtext (pruns p)) \<longrightarrow>
        extract_line p =
          (if (\<exists>r \<in> set (pruns p). py_strip (rtext r) \<noteq> [])
              \<and> (\<forall>r \<in> set (pruns p). py_strip (rtext r) \<noteq> [] \<longrightarrow> rbold r = Some True)
           then u ''**'' @ py_rstrip (ptext p) @ u ''**''
           else py_rstrip (ptext p)))"
proof -
  have A: "length (extract_lines doc) = length doc" by (simp add: extract_lines_def)
  have B: "\<forall>i < length doc. extract_lines doc ! i = extract_line (doc ! i)"
    by (simp add: extract_lines_def)
  have C: "document_available env \<and> load_document env path = Inr doc \<longrightarrow>
        extract_text_from_docx env path = Inr (py_join [10] (extract_lines doc))"
    by (simp add: extract_text_from_docx_def)
  have D: "doc \<noteq> [] \<and> (\<forall>q \<in> set doc. 10 \<notin> set (ptext q)) \<longrightarrow>
        py_split 10 (py_join [10] (extract_lines doc)) = extract_lines doc"
  proof
    assume h: "doc \<noteq> [] \<and> (\<forall>q \<in> set doc. 10 \<notin> set (ptext q))"
    then have ne: "extract_lines doc \<noteq> []" by (simp add: extract_lines_def)
    from h have "\<forall>l \<in> set (extract_lines doc). 10 \<notin> set l"
      using extract_line_no_lf by (auto simp: extract_lines_def)
    with ne show "py_split 10 (py_join [10] (extract_lines doc)) = extract_lines doc"
      by (rule py_split_join)
  qed
  have E: "py_rstrip (ptext p) = [] \<longrightarrow> extract_line p = []"
    by (simp add: extract_line_def)
  have al: "list_all (\<lambda>r. rbold r = Some True) (filter (\<lambda>r. py_strip (rtext r) \<noteq> []) (pruns p))
          \<longleftrightarrow> (\<forall>r \<in> set (pruns p). py_strip (rtext r) \<noteq> [] \<longrightarrow> rbold r = Some True)"
    by (auto simp: list_all_iff)
  have F: "extract_line p =
       (if py_rstrip (ptext p) \<noteq> [] \<and> pruns p \<noteq> []
           \<and> (\<forall>r \<in> set (pruns p). py_strip (rtext r) \<noteq> [] \<longrightarrow> rbold r = Some True)
        then u ''**'' @ py_rstrip (ptext p) @ u ''**''
        else py_rstrip (ptext p))"
    unfolding al [symmetric] by (simp add: extract_line_def Let_def)
  have G: "ptext p = concat (map rtext (pruns p)) \<longrightarrow>
        extract_line p =
          (if (\<exists>r \<in> set (pruns p). py_strip (rtext r) \<noteq> [])
              \<and> (\<forall>r \<in> set (pruns p). py_strip (rtext r) \<noteq> [] \<longrightarrow> rbold r = Some True)
           then u ''**'' @ py_rstrip (ptext p) @ u ''**''
           else py_rstrip (ptext p))"
  proof
    assume e: "ptext p = concat (map rtext (pruns p))"
    show "extract_line p =
          (if (\<exists>r \<in> set (pruns p). py_strip (rtext r) \<noteq> [])
              \<and> (\<forall>r \<in> set (pruns p). py_strip (rtext r) \<noteq> [] \<longrightarrow> rbold r = Some True)
           then u ''**'' @ py_rstrip (ptext p) @ u ''**''
           else py_rstrip (ptext p))"
    proof (cases "py_rstrip (ptext p) = []")
      case True
      then have "\<forall>r \<in> set (pruns p). py_strip (rtext r) = []"
        by (simp add: e runs_blank_iff)
      with True F show ?thesis by simp
    next
      case False
      then have ex: "\<exists>r \<in> set (pruns p). py_strip (rtext r) \<noteq> []"
        by (simp add: e runs_blank_iff)
      then have "pruns p \<noteq> []" by auto
      with False ex F show ?thesis by simp
    qed
  qed
  from A B C D E F G show ?thesis by blast
qed

theorem extract_line_bold_counterexample:
  "py_rstrip (u '' y'') = u '' y''
   \<and> filter (\<lambda>r. py_strip (rtext r) \<noteq> []) [\<lparr>rtext = u '' '', rbold = Some True\<rparr>] = []
   \<and> extract_line \<lparr>ptext = u '' y'', pruns = [\<lparr>rtext = u '' '', rbold = Some True\<rparr>]\<rparr>
        = u ''** y**''
   \<and> extract_lines [\<lparr>ptext = [97, 10, 98], pruns = [\<lparr>rtext = [97, 10, 98], rbold = None\<rparr>]\<rparr>]
        = [[97, 10, 98]]
   \<and> py_split 10
        (py_join [10]
          (extract_lines
            [\<lparr>ptext = [97, 10, 98], pruns = [\<lparr>rtext = [97, 10, 98], rbold = None\<rparr>]\<rparr>]))
        = [[97], [98]]"
  by (simp add: extract_lines_def extract_line_def Let_def u_def py_rstrip_def py_strip_def
      py_lstrip_def py_isspace_def)

theorem extract_line_bold_witness:
  "document_available
     \<lparr>listing = [], files = Map.empty, document_available = True,
      load_document =
        (\<lambda>p. Inr [\<lparr>ptext = u ''Q  '',
                     pruns = [\<lparr>rtext = u ''Q '', rbold = Some True\<rparr>,
                              \<lparr>rtext = u '' '', rbold = None\<rparr>]\<rparr>,
                   \<lparr>ptext = [], pruns = []\<rparr>,
                   \<lparr>ptext = u ''ab'',
                     pruns = [\<lparr>rtext = u ''a'', rbold = Some True\<rparr>,
                              \<lparr>rtext = u ''b'', rbold = Some False\<rparr>]\<rparr>]),
      generated = []\<rparr>
   \<and> extract_text_from_docx
     \<lparr>listing = [], files = Map.empty, document_available = True,
      load_document =
        (\<lambda>p. Inr [\<lparr>ptext = u ''Q  '',
                     pruns = [\<lparr>rtext = u ''Q '', rbold = Some True\<rparr>,
                              \<lparr>rtext = u '' '', rbold = None\<rparr>]\<rparr>,
                   \<lparr>ptext = [], pruns = []\<rparr>,
                   \<lparr>ptext = u ''ab'',
                     pruns = [\<lparr>rtext = u ''a'', rbold = Some True\<rparr>,
                              \<lparr>rtext = u ''b'', rbold = Some False\<rparr>]\<rparr>]),
      generated = []\<rparr> ''transcript_PATIENT_001.docx''
     = Inr (u ''**Q**'' @ [10] @ [10] @ u ''ab'')
   \<and> py_split 10 (u ''**Q**'' @ [10] @ [10] @ u ''ab'') = [u ''**Q**'', [], u ''ab'']"
proof -
  let ?doc = "[\<lparr>ptext = u ''Q  '',
                 pruns = [\<lparr>rtext = u ''Q '', rbold = Some True\<rparr>,
                          \<lparr>rtext = u '' '', rbold = None\<rparr>]\<rparr>,
               \<lparr>ptext = [], pruns = []\<rparr>,
               \<lparr>ptext = u ''ab'',
                 pruns = [\<lparr>rtext = u ''a'', rbold = Some True\<rparr>,
                          \<lparr>rtext = u ''b'', rbold = Some False\<rparr>]\<rparr>]"
  let ?env = "\<lparr>listing = [], files = Map.empty, document_available = True,
      load_document = (\<lambda>p. Inr ?doc), generated = []\<rparr>"
  have a: "document_available ?env" by simp
  have l: "load_document ?env ''transcript_PATIENT_001.docx'' = Inr ?doc" by simp
  have e: "extract_lines ?doc = [u ''**Q**'', [], u ''ab'']"
    by (simp add: extract_lines_def extract_line_def Let_def u_def py_rstrip_def
        py_strip_def py_lstrip_def py_isspace_def)
  have j: "py_join [10] [u ''**Q**'', [], u ''ab''] = u ''**Q**'' @ [10] @ [10] @ u ''ab''"
    by simp
  have ne: "?doc \<noteq> []" by simp
  have nl: "\<forall>q \<in> set ?doc. 10 \<notin> set (ptext q)" by (simp add: u_def)
  note r = extract_line_bold [of ?doc ?env "''transcript_PATIENT_001.docx''"]
  from r a l have "extract_text_from_docx ?env ''transcript_PATIENT_001.docx''
          = Inr (py_join [10] (extract_lines ?doc))" by blast
  then have x: "extract_text_from_docx ?env ''transcript_PATIENT_001.docx''
          = Inr (u ''**Q**'' @ [10] @ [10] @ u ''ab'')" by (simp only: e j)
  from r ne nl have "py_split 10 (py_join [10] (extract_lines ?doc)) = extract_lines ?doc"
    by blast
  then have y: "py_split 10 (u ''**Q**'' @ [10] @ [10] @ u ''ab'') = [u ''**Q**'', [], u ''ab'']"
    by (simp only: e j)
  from a x y show ?thesis by blast
qed

section \<open>The aggregator: which names are discovered (C9)\<close>

lemma matching_files_Cons:
  "matching_files (a # names) =
     (if glob_match a
      then (case pattern_search a of
              None \<Rightarrow> matching_files names
            | Some pid \<Rightarrow> (pid, a) # matching_files names)
      else matching_files names)"
  by (simp add: matching_files_def split: option.splits)

lemma matching_files_filter:
  "matching_files (filter (\<lambda>p. glob_match p \<and> pattern_search p \<noteq> None) names)
     = matching_files names"
proof (induction names)
  case Nil
  show ?case by simp
next
  case (Cons a names)
  show ?case
  proof (cases "glob_match a")
    case False
    with Cons show ?thesis by (simp add: matching_files_Cons)
  next
    case True
    show ?thesis
    proof (cases "pattern_search a")
      case None
      with True Cons show ?thesis by (simp add: matching_files_Cons)
    next
      case (Some pid)
      with True Cons show ?thesis by (simp add: matching_files_Cons)
    qed
  qed
qed

lemma matching_files_length:
  "length (matching_files names)
     = length (filter (\<lambda>p. glob_match p \<and> pattern_search p \<noteq> None) names)"
proof (induction names)
  case Nil
  show ?case by (simp add: matching_files_def)
next
  case (Cons a names)
  then show ?case
    by (cases "glob_match a"; cases "pattern_search a") (simp_all add: matching_files_Cons)
qed

lemma read_from_backup_listing:
  "read_from_backup (env\<lparr>listing := l\<rparr>) p = read_from_backup env p"
  by (simp add: read_from_backup_def)

lemma extract_text_listing:
  "extract_text_from_docx (env\<lparr>listing := l\<rparr>) p = extract_text_from_docx env p"
  by (simp add: extract_text_from_docx_def)

lemma acquire_listing: "acquire (env\<lparr>listing := l\<rparr>) p = acquire env p"
  unfolding acquire_def read_from_backup_listing extract_text_listing by (rule refl)

lemma build_entries_listing: "build_entries (env\<lparr>listing := l\<rparr>) ts = build_entries env ts"
  by (induction ts) (auto simp: acquire_listing split: sum.splits)

lemma footer_listing: "footer (env\<lparr>listing := l\<rparr>) ts = footer env ts"
  by (simp add: footer_def)

lemma build_aggregate_listing:
  assumes "matching_files l = matching_files (listing env)"
  shows "build_aggregate (env\<lparr>listing := l\<rparr>) = build_aggregate env"
proof -
  have "iter_transcript_paths (listing (env\<lparr>listing := l\<rparr>)) = iter_transcript_paths (listing env)"
    using assms by (simp add: iter_transcript_paths_def)
  then show ?thesis
    unfolding build_aggregate_def build_entries_listing footer_listing by simp
qed

text \<open>
  C9. Discovery never fails. A name of the directory is kept exactly when it begins with
  \<open>transcript_PATIENT_\<close> and its last 27 characters are \<open>transcript_PATIENT_\<close>, three
  digits and \<open>.docx\<close> (the pattern is searched for, anchored at the end only); the
  identifier taken from it is \<open>PATIENT_\<close> and those three digits. The sorted list holds
  the kept names and nothing else, so its length, which the footer prints, counts only
  them. Any other name is dropped without a trace: the aggregator does the same with and
  without such names in the directory.
\<close>

theorem discovery_fixed_width:
  "(\<exists>ts. iter_transcript_paths names = Inr ts
        \<and> set ts = set (matching_files names)
        \<and> length ts = length (filter (\<lambda>p. glob_match p \<and> pattern_search p \<noteq> None) names))
   \<and> ((pid, p) \<in> set (matching_files names) \<longleftrightarrow>
        p \<in> set names
        \<and> (\<exists>pre d1 d2 d3. is_digit d1 \<and> is_digit d2 \<and> is_digit d3
              \<and> pid = ''PATIENT_'' @ [d1, d2, d3]
              \<and> p = pre @ ''transcript_'' @ pid @ ''.docx''
              \<and> take 19 p = ''transcript_PATIENT_''))
   \<and> ((glob_match p \<and> pattern_search p \<noteq> None) \<longleftrightarrow>
        (\<exists>pre d1 d2 d3. is_digit d1 \<and> is_digit d2 \<and> is_digit d3
              \<and> p = pre @ ''transcript_PATIENT_'' @ [d1, d2, d3] @ ''.docx''
              \<and> take 19 p = ''transcript_PATIENT_''))
   \<and> iter_transcript_paths (filter (\<lambda>p. glob_match p \<and> pattern_search p \<noteq> None) names)
        = iter_transcript_paths names
   \<and> build_aggregate
         (env\<lparr>listing := filter (\<lambda>p. glob_match p \<and> pattern_search p \<noteq> None) (listing env)\<rparr>)
        = build_aggregate env"
proof -
  from iter_transcript_paths_sorted [of names] obtain ts where
    "iter_transcript_paths names = Inr ts" "set ts = set (matching_files names)"
    "length ts = length (matching_files names)" by blast
  then have A: "\<exists>ts. iter_transcript_paths names = Inr ts
        \<and> set ts = set (matching_files names)
        \<and> length ts = length (filter (\<lambda>p. glob_match p \<and> pattern_search p \<noteq> None) names)"
    by (simp add: matching_files_length)
  have B: "(pid, p) \<in> set (matching_files names) \<longleftrightarrow>
        p \<in> set names
        \<and> (\<exists>pre d1 d2 d3. is_digit d1 \<and> is_digit d2 \<and> is_digit d3
              \<and> pid = ''PATIENT_'' @ [d1, d2, d3]
              \<and> p = pre @ ''transcript_'' @ pid @ ''.docx''
              \<and> take 19 p = ''transcript_PATIENT_'')"
    using accepted_iff [of p pid] by (simp add: matching_files_iff)
  have C: "(glob_match p \<and> pattern_search p \<noteq> None) \<longleftrightarrow>
        (\<exists>pre d1 d2 d3. is_digit d1 \<and> is_digit d2 \<and> is_digit d3
              \<and> p = pre @ ''transcript_PATIENT_'' @ [d1, d2, d3] @ ''.docx''
              \<and> take 19 p = ''transcript_PATIENT_'')"
  proof
    assume "glob_match p \<and> pattern_search p \<noteq> None"
    then obtain q where "glob_match p \<and> pattern_search p = Some q" by auto
    then obtain pre d1 d2 d3 where "is_digit d1" "is_digit d2" "is_digit d3"
      "q = ''PATIENT_'' @ [d1, d2, d3]" "p = pre @ ''transcript_'' @ q @ ''.docx''"
      "take 19 p = ''transcript_PATIENT_''"
      unfolding accepted_iff by blast
    then have "is_digit d1 \<and> is_digit d2 \<and> is_digit d3
              \<and> p = pre @ ''transcript_PATIENT_'' @ [d1, d2, d3] @ ''.docx''
              \<and> take 19 p = ''transcript_PATIENT_''" by simp
    then show "\<exists>pre d1 d2 d3. is_digit d1 \<and> is_digit d2 \<and> is_digit d3
              \<and> p = pre @ ''transcript_PATIENT_'' @ [d1, d2, d3] @ ''.docx''
              \<and> take 19 p = ''transcript_PATIENT_''" by blast
  next
    assume "\<exists>pre d1 d2 d3. is_digit d1 \<and> is_digit d2 \<and> is_digit d3
              \<and> p = pre @ ''transcript_PATIENT_'' @ [d1, d2, d3] @ ''.docx''
              \<and> take 19 p = ''transcript_PATIENT_''"
    then obtain pre d1 d2 d3 where d: "is_digit d1" "is_digit d2" "is_digit d3"
      and p: "p = pre @ ''transcript_PATIENT_'' @ [d1, d2, d3] @ ''.docx''"
      and t: "take 19 p = ''transcript_PATIENT_''" by blast
    from p have "p = pre @ ''transcript_'' @ (''PATIENT_'' @ [d1, d2, d3]) @ ''.docx''" by simp
    with d t have "\<exists>pre' e1 e2 e3. is_digit e1 \<and> is_digit e2 \<and> is_digit e3
        \<and> ''PATIENT_'' @ [d1, d2, d3] = ''PATIENT_'' @ [e1, e2, e3]
        \<and> p = pre' @ ''transcript_'' @ (''PATIENT_'' @ [d1, d2, d3]) @ ''.docx''
        \<and> take 19 p = ''transcript_PATIENT_''" by blast
    then have "glob_match p \<and> pattern_search p = Some (''PATIENT_'' @ [d1, d2, d3])"
      unfolding accepted_iff [symmetric] .
    then show "glob_match p \<and> pattern_search p \<noteq> None" by simp
  qed
  have D: "iter_transcript_paths (filter (\<lambda>p. glob_match p \<and> pattern_search p \<noteq> None) names)
        = iter_transcript_paths names"
    by (simp only: iter_transcript_paths_def matching_files_filter)
  have E: "build_aggregate
         (env\<lparr>listing := filter (\<lambda>p. glob_match p \<and> pattern_search p \<noteq> None) (listing env)\<rparr>)
        = build_aggregate env"
    by (rule build_aggregate_listing) (rule matching_files_filter)
  from A B C D E show ?thesis by blast
qed

theorem discovery_fixed_width_witness:
  "iter_transcript_paths
      [''transcript_PATIENT_010.docx'', ''transcript_PATIENT_0001.docx'',
       ''transcript_PATIENT_12.docx'', ''transcript_PATIENT_abc.docx'',
       ''transcript_PATIENT_002.docx'']
     = Inr [(''PATIENT_002'', ''transcript_PATIENT_002.docx''),
            (''PATIENT_010'', ''transcript_PATIENT_010.docx'')]
   \<and> iter_transcript_paths
        (filter (\<lambda>p. glob_match p \<and> pattern_search p \<noteq> None)
          [''transcript_PATIENT_010.docx'', ''transcript_PATIENT_0001.docx'',
           ''transcript_PATIENT_12.docx'', ''transcript_PATIENT_abc.docx'',
           ''transcript_PATIENT_002.docx''])
     = Inr [(''PATIENT_002'', ''transcript_PATIENT_002.docx''),
            (''PATIENT_010'', ''transcript_PATIENT_010.docx'')]
   \<and> build_aggregate
        (two_backups_env
           \<lparr>listing := filter (\<lambda>p. glob_match p \<and> pattern_search p \<noteq> None)
                         (listing two_backups_env)\<rparr>)
     = build_aggregate two_backups_env"
proof -
  let ?names = "[''transcript_PATIENT_010.docx'', ''transcript_PATIENT_0001.docx'',
       ''transcript_PATIENT_12.docx'', ''transcript_PATIENT_abc.docx'',
       ''transcript_PATIENT_002.docx'']"
  have e: "iter_transcript_paths ?names
     = Inr [(''PATIENT_002'', ''transcript_PATIENT_002.docx''),
            (''PATIENT_010'', ''transcript_PATIENT_010.docx'')]"
    by code_simp
  note r = discovery_fixed_width [where names = ?names and env = two_backups_env]
  from r have d: "iter_transcript_paths
        (filter (\<lambda>p. glob_match p \<and> pattern_search p \<noteq> None) ?names)
      = iter_transcript_paths ?names" by blast
  from r have b: "build_aggregate
        (two_backups_env
           \<lparr>listing := filter (\<lambda>p. glob_match p \<and> pattern_search p \<noteq> None)
                         (listing two_backups_env)\<rparr>)
     = build_aggregate two_backups_env" by blast
  from e d b show ?thesis by (simp only: simp_thms)
qed

end
